theory Spec2Isabelle
  imports Complex_Main "HOL-Library.Sublist"
begin

section \<open>Values\<close>

text \<open>
  The program is a single React component, \<^verbatim>\<open>src/src/App.jsx\<close>. Its strings are
  modelled as \<^typ>\<open>string\<close> (bytes of the UTF-8 encoding): the four regular expressions
  and the two \<^verbatim>\<open>includes\<close> tests only distinguish ASCII characters, and every byte of
  a non-ASCII character differs from all of them.

  A JavaScript value in a numeric slot is a finite number, \<^verbatim>\<open>Infinity\<close>,
  \<^verbatim>\<open>-Infinity\<close>, \<^verbatim>\<open>NaN\<close> or \<^verbatim>\<open>undefined\<close>. A finite number is a double; it is
  represented by the real number it denotes (the sign of zero is not kept).
\<close>

datatype jsnum = Number real | Infinity | MinusInfinity | NaN | Undefined

section \<open>The regular expressions of \<^verbatim>\<open>extractCoordinates\<close>\<close>

text \<open>
  The fragment of JavaScript regular expressions that the four patterns use: a literal
  character, \<^verbatim>\<open>\d\<close>, a negated one-character class \<^verbatim>\<open>[^c]\<close>, sequence, the greedy
  \<^verbatim>\<open>?\<close>, the greedy \<^verbatim>\<open>+\<close> on a single-character matcher, and a capture group.
\<close>

datatype cclass = Lit char | Digit | NotLit char

fun accepts :: "cclass \<Rightarrow> char \<Rightarrow> bool" where
  "accepts (Lit c) x = (x = c)"
| "accepts Digit x = (x \<in> set ''0123456789'')"
| "accepts (NotLit c) x = (x \<noteq> c)"

datatype regex = Atom cclass | Seq regex regex | Opt regex | Plus cclass | Group regex

text \<open>
  \<open>run r s\<close> lists every way in which \<open>r\<close> matches a prefix of \<open>s\<close>, in the order in
  which a backtracking matcher tries them (greedy quantifiers try the longer match
  first). Each entry holds the strings captured by the groups, in the order of their
  opening parentheses, and the input that is left.
\<close>

fun run :: "regex \<Rightarrow> string \<Rightarrow> (string list \<times> string) list" where
  "run (Atom c) [] = []"
| "run (Atom c) (x # xs) = (if accepts c x then [([], xs)] else [])"
| "run (Seq a b) s =
     concat (map (\<lambda>m. map (\<lambda>m'. (fst m @ fst m', snd m')) (run b (snd m))) (run a s))"
| "run (Opt a) s = run a s @ [([], s)]"
| "run (Plus c) [] = []"
| "run (Plus c) (x # xs) = (if accepts c x then run (Plus c) xs @ [([], xs)] else [])"
| "run (Group a) s =
     map (\<lambda>m. (take (length s - length (snd m)) s # fst m, snd m)) (run a s)"

text \<open>
  \<^verbatim>\<open>String.prototype.match\<close> with a pattern without the \<^verbatim>\<open>g\<close> flag: the match at the
  leftmost position where the pattern matches, and there the first one in backtracking
  order; \<open>None\<close> is \<^verbatim>\<open>null\<close>. The result is the list of captures \<^verbatim>\<open>m[1], m[2], ...\<close>.
\<close>

fun str_match :: "regex \<Rightarrow> string \<Rightarrow> string list option" where
  "str_match r [] = (case run r [] of [] \<Rightarrow> None | m # _ \<Rightarrow> Some (fst m))"
| "str_match r (x # xs) =
     (case run r (x # xs) of [] \<Rightarrow> str_match r xs | m # _ \<Rightarrow> Some (fst m))"

text \<open>A literal run of characters followed by the rest of a pattern.\<close>

fun lit :: "string \<Rightarrow> regex \<Rightarrow> regex" where
  "lit [] r = r"
| "lit (c # cs) r = Seq (Atom (Lit c)) (lit cs r)"

text \<open>\<^verbatim>\<open>-?\d+\.\d+\<close>\<close>

definition decimal :: regex where
  "decimal = Seq (Opt (Atom (Lit CHR ''-'')))
               (Seq (Plus Digit) (Seq (Atom (Lit CHR ''.'')) (Plus Digit)))"

text \<open>\<^verbatim>\<open>/@(-?\d+\.\d+),(-?\d+\.\d+)/\<close>\<close>

definition pattern1 :: regex where
  "pattern1 = lit ''@'' (Seq (Group decimal) (lit '','' (Group decimal)))"

text \<open>\<^verbatim>\<open>/q=(-?\d+\.\d+),(-?\d+\.\d+)/\<close>\<close>

definition pattern2 :: regex where
  "pattern2 = lit ''q='' (Seq (Group decimal) (lit '','' (Group decimal)))"

text \<open>\<^verbatim>\<open>/!3d(-?\d+\.\d+)!4d(-?\d+\.\d+)/\<close>\<close>

definition pattern3 :: regex where
  "pattern3 = lit ''!3d'' (Seq (Group decimal) (lit ''!4d'' (Group decimal)))"

text \<open>\<^verbatim>\<open>/\/maps\/place\/[^/]+\/@(-?\d+\.\d+),(-?\d+\.\d+)/\<close>\<close>

definition pattern4 :: regex where
  "pattern4 = lit ''/maps/place/'' (Seq (Plus (NotLit CHR ''/''))
                (lit ''/@'' (Seq (Group decimal) (lit '','' (Group decimal)))))"

section \<open>\<^verbatim>\<open>parseFloat\<close> and \<^verbatim>\<open>includes\<close>\<close>

text \<open>The value of a digit is its place in \<^verbatim>\<open>0123456789\<close>.\<close>

definition digit_value :: "char \<Rightarrow> nat" where
  "digit_value c = length (takeWhile (\<lambda>d. d \<noteq> c) ''0123456789'')"

fun digits_value :: "nat \<Rightarrow> string \<Rightarrow> nat" where
  "digits_value acc [] = acc"
| "digits_value acc (c # cs) = digits_value (10 * acc + digit_value c) cs"

text \<open>
  The Number value for the fraction \<open>n / d\<close> (\<open>d\<close> positive): the double nearest to it,
  the one with the even significand when two are equally near, and \<^verbatim>\<open>Infinity\<close> when
  that rounding reaches \<open>2 ^ 1024\<close>. \<open>bit_length n\<close> is the number of binary digits of
  \<open>n\<close>, \<open>exponent n d\<close> is the \<open>e\<close> with \<open>2 ^ e \<le> n / d < 2 ^ (e + 1)\<close>, and the doubles
  around \<open>n / d\<close> are the multiples of \<open>2 ^ q\<close>, where \<open>q\<close> is \<open>e - 52\<close> and at least
  \<open>- 1074\<close>.
\<close>

fun bit_length :: "nat \<Rightarrow> nat" where
  "bit_length n = (if n = 0 then 0 else Suc (bit_length (n div 2)))"

definition exponent :: "nat \<Rightarrow> nat \<Rightarrow> int" where
  "exponent n d =
     (let e0 = int (bit_length n) - int (bit_length d)
      in if (if 0 \<le> e0 then n < d * 2 ^ nat e0 else n * 2 ^ nat (- e0) < d) then e0 - 1
         else e0)"

definition round_half_even :: "nat \<Rightarrow> nat \<Rightarrow> nat" where
  "round_half_even n d =
     (let t = n div d; r = n mod d
      in if 2 * r < d then t else if d < 2 * r then t + 1 else if even t then t else t + 1)"

definition to_double :: "nat \<Rightarrow> nat \<Rightarrow> jsnum" where
  "to_double n d =
     (if n = 0 then Number 0
      else let q = max (exponent n d - 52) (- 1074) in
        if 0 \<le> q then
          let v = round_half_even n (d * 2 ^ nat q) * 2 ^ nat q
          in if 2 ^ 1024 \<le> v then Infinity else Number (real v)
        else Number (real (round_half_even (n * 2 ^ nat (- q)) d) / 2 ^ nat (- q)))"

text \<open>
  The unsigned part of a decimal literal: the longest run of digits, and after a
  \<^verbatim>\<open>.\<close> the longest run of digits again. No digit at all is \<^verbatim>\<open>NaN\<close>; otherwise
  the result is the Number value for the decimal. (The language lets an implementation
  replace the digits after the twentieth significant one by zeros before it rounds;
  the model rounds the decimal as it is written.)
\<close>

definition parse_unsigned :: "string \<Rightarrow> jsnum" where
  "parse_unsigned s =
     (let ip = takeWhile (accepts Digit) s; r = dropWhile (accepts Digit) s;
          fp = (case r of [] \<Rightarrow> [] | c # cs \<Rightarrow>
                  if c = CHR ''.'' then takeWhile (accepts Digit) cs else [])
      in if ip = [] \<and> fp = [] then NaN
         else to_double (digits_value 0 (ip @ fp)) (10 ^ length fp))"

text \<open>The unary minus.\<close>

fun negate :: "jsnum \<Rightarrow> jsnum" where
  "negate (Number v) = Number (- v)"
| "negate Infinity = MinusInfinity"
| "negate MinusInfinity = Infinity"
| "negate NaN = NaN"
| "negate Undefined = NaN"

text \<open>
  \<^verbatim>\<open>parseFloat\<close> on the strings the program gives it, which are captures of
  \<^verbatim>\<open>-?\d+\.\d+\<close>: an optional minus sign and the decimal literal that follows. Leading
  white space, a plus sign, exponents and the word \<^verbatim>\<open>Infinity\<close> are not modelled; no
  capture contains them.
\<close>

fun parseFloat :: "string \<Rightarrow> jsnum" where
  "parseFloat [] = NaN"
| "parseFloat (c # cs) =
     (if c = CHR ''-'' then negate (parse_unsigned cs) else parse_unsigned (c # cs))"

text \<open>\<^verbatim>\<open>s.includes(sub)\<close>\<close>

fun str_includes :: "string \<Rightarrow> string \<Rightarrow> bool" where
  "str_includes [] sub = (sub = [])"
| "str_includes (x # xs) sub = (prefix sub (x # xs) \<or> str_includes xs sub)"

section \<open>\<^verbatim>\<open>extractCoordinates\<close>\<close>

text \<open>
  The result is an object \<^verbatim>\<open>{lat, lng}\<close>, the string \<^verbatim>\<open>'SHORT_URL'\<close> or \<^verbatim>\<open>null\<close>.
  The argument is the text of an input field, always a string, so \<^verbatim>\<open>url.match\<close> does
  not throw and the \<^verbatim>\<open>catch\<close> branch (which returns \<^verbatim>\<open>null\<close>) is not entered.
\<close>

datatype coords = Coords jsnum jsnum | SHORT_URL | Null

text \<open>\<^verbatim>\<open>{ lat: parseFloat(m[1]), lng: parseFloat(m[2]) }\<close>; \<open>m[i]\<close> beyond the captures is
  \<^verbatim>\<open>undefined\<close>, which \<^verbatim>\<open>parseFloat\<close> turns into \<^verbatim>\<open>NaN\<close>.\<close>

fun from_match :: "string list \<Rightarrow> coords" where
  "from_match (a # b # _) = Coords (parseFloat a) (parseFloat b)"
| "from_match [a] = Coords (parseFloat a) NaN"
| "from_match [] = Coords NaN NaN"

definition extractCoordinates :: "string \<Rightarrow> coords" where
  "extractCoordinates url =
     (case str_match pattern1 url of Some m1 \<Rightarrow> from_match m1 | None \<Rightarrow>
      (case str_match pattern2 url of Some m2 \<Rightarrow> from_match m2 | None \<Rightarrow>
       (case str_match pattern3 url of Some m3 \<Rightarrow> from_match m3 | None \<Rightarrow>
        (case str_match pattern4 url of Some m4 \<Rightarrow> from_match m4 | None \<Rightarrow>
         (if str_includes url ''maps.app.goo.gl'' \<or> str_includes url ''goo.gl'' then SHORT_URL
          else Null)))))"

section \<open>The component state\<close>

text \<open>
  The object \<^verbatim>\<open>{ lat, lng }\<close> that the location watcher delivers, a task
  \<^verbatim>\<open>{ id, name, location, lat, lng, mapsUrl }\<close> (the fields \<^verbatim>\<open>id\<close>, \<^verbatim>\<open>lat\<close> and
  \<^verbatim>\<open>lng\<close> are \<open>task_id\<close>, \<open>task_lat\<close> and \<open>task_lng\<close> here) and an in-app
  notification \<^verbatim>\<open>{ id, text }\<close> (\<open>notif_id\<close>, \<open>notif_text\<close>).
\<close>

record position =
  lat :: real
  lng :: real

record task =
  task_id :: int
  name :: string
  location :: string
  task_lat :: jsnum
  task_lng :: jsnum
  mapsUrl :: string

record notification =
  notif_id :: int
  notif_text :: string

datatype permission = Default | Granted | Denied

text \<open>
  The eight \<^verbatim>\<open>useState\<close> cells of \<^verbatim>\<open>LocationTaskApp\<close>, and what the component does to
  the world outside: the messages shown with \<^verbatim>\<open>alert\<close>, the bodies of the operating
  system notifications it has created, the browser's \<^verbatim>\<open>Notification.permission\<close>, and
  the number of times it has read the clock (\<^verbatim>\<open>Date.now()\<close>).
\<close>

record app =
  tasks :: "task list"
  taskName :: string
  locationName :: string
  googleMapsUrl :: string
  userLocation :: "position option"
  notifications :: "notification list"
  tracking :: bool
  notifiedTasks :: "int set"
  alerts :: "string list"
  browserNotifications :: "string list"
  notificationPermission :: permission
  clockReads :: nat

text \<open>
  What the component reads from outside. \<open>now k\<close> is the value of the \<open>k\<close>-th call of
  \<^verbatim>\<open>Date.now()\<close>. \<open>calculateDistance\<close> stands for the function of that name (lines
  81 to 94): it is computed in double precision from \<^verbatim>\<open>Math.sin\<close>, \<^verbatim>\<open>Math.cos\<close>,
  \<^verbatim>\<open>Math.atan2\<close> and \<^verbatim>\<open>Math.sqrt\<close>, whose results the language leaves to the
  implementation, so it is a parameter, and what is proved below holds for every
  function in its place.
\<close>

record env =
  now :: "nat \<Rightarrow> int"
  calculateDistance :: "real \<Rightarrow> real \<Rightarrow> jsnum \<Rightarrow> jsnum \<Rightarrow> jsnum"

text \<open>The comparisons \<^verbatim>\<open>d <= c\<close> and \<^verbatim>\<open>d > c\<close> with a finite \<open>c\<close>; both are false on
  \<^verbatim>\<open>NaN\<close> (and on \<^verbatim>\<open>undefined\<close>, which they convert to \<^verbatim>\<open>NaN\<close>).\<close>

fun js_le :: "jsnum \<Rightarrow> real \<Rightarrow> bool" where
  "js_le (Number d) c = (d \<le> c)"
| "js_le Infinity c = False"
| "js_le MinusInfinity c = True"
| "js_le NaN c = False"
| "js_le Undefined c = False"

fun js_gt :: "jsnum \<Rightarrow> real \<Rightarrow> bool" where
  "js_gt (Number d) c = (d > c)"
| "js_gt Infinity c = True"
| "js_gt MinusInfinity c = False"
| "js_gt NaN c = False"
| "js_gt Undefined c = False"

section \<open>\<^verbatim>\<open>checkProximity\<close>\<close>

text \<open>
  \<^verbatim>\<open>checkProximity\<close> is a closure made anew by every render. It reads two variables of
  the render that made it, \<^verbatim>\<open>tasks\<close> and \<^verbatim>\<open>notifiedTasks\<close>; they are the \<open>closure\<close>.
  Its writes go through updater functions (\<^verbatim>\<open>setNotifiedTasks(prev => ...)\<close>), which
  React applies, in the order of the calls, to the current state: here the \<open>app\<close> that
  is passed along.
\<close>

record closure =
  cl_tasks :: "task list"
  cl_notifiedTasks :: "int set"

definition proximityThreshold :: real where
  "proximityThreshold = 1609"

text \<open>The first five bytes are the UTF-8 encoding of U+1F4CD (a round pushpin) and a
  space, with which the template literal of line 110 begins.\<close>

definition notifText :: "task \<Rightarrow> string" where
  "notifText t =
     [CHR 0xF0, CHR 0x9F, CHR 0x93, CHR 0x8D] @ '' Nearby reminder: '' @ name t @ '' at ''
       @ location t"

text \<open>The body of the \<^verbatim>\<open>forEach\<close> loop, lines 100 to 129.\<close>

definition checkTask :: "env \<Rightarrow> closure \<Rightarrow> position \<Rightarrow> app \<Rightarrow> task \<Rightarrow> app" where
  "checkTask e cl currentLocation st t =
     (let distance = calculateDistance e (lat currentLocation) (lng currentLocation)
                       (task_lat t) (task_lng t)
      in if js_le distance proximityThreshold \<and> task_id t \<notin> cl_notifiedTasks cl then
           st\<lparr>notifications :=
                 notifications st @ [\<lparr>notif_id = now e (clockReads st), notif_text = notifText t\<rparr>],
              clockReads := Suc (clockReads st),
              notifiedTasks := insert (task_id t) (notifiedTasks st),
              browserNotifications :=
                (if notificationPermission st = Granted
                 then browserNotifications st @ [notifText t]
                 else browserNotifications st)\<rparr>
         else if js_gt distance (proximityThreshold * 2) then
           st\<lparr>notifiedTasks := notifiedTasks st - {task_id t}\<rparr>
         else st)"

definition checkProximity :: "env \<Rightarrow> closure \<Rightarrow> position \<Rightarrow> app \<Rightarrow> app" where
  "checkProximity e cl currentLocation st = foldl (checkTask e cl currentLocation) st (cl_tasks cl)"

section \<open>The handlers\<close>

text \<open>
  \<^verbatim>\<open>addTask\<close>, lines 132 to 157. The empty string is the only falsy string, and of the
  three results of \<^verbatim>\<open>extractCoordinates\<close> only \<^verbatim>\<open>null\<close> is falsy: \<^verbatim>\<open>'SHORT_URL'\<close> is a
  non-empty string, on which \<^verbatim>\<open>.lat\<close> and \<^verbatim>\<open>.lng\<close> are \<^verbatim>\<open>undefined\<close>.
\<close>

fun falsy :: "coords \<Rightarrow> bool" where
  "falsy Null = True"
| "falsy SHORT_URL = False"
| "falsy (Coords a b) = False"

fun coords_lat :: "coords \<Rightarrow> jsnum" where
  "coords_lat (Coords a b) = a"
| "coords_lat SHORT_URL = Undefined"
| "coords_lat Null = Undefined"

fun coords_lng :: "coords \<Rightarrow> jsnum" where
  "coords_lng (Coords a b) = b"
| "coords_lng SHORT_URL = Undefined"
| "coords_lng Null = Undefined"

definition addTask :: "env \<Rightarrow> app \<Rightarrow> app" where
  "addTask e st =
     (if taskName st = [] \<or> locationName st = [] \<or> googleMapsUrl st = [] then
        st\<lparr>alerts := alerts st @ [''Please fill in all fields'']\<rparr>
      else
        let coords = extractCoordinates (googleMapsUrl st) in
        if falsy coords then
          st\<lparr>alerts := alerts st @
            [''Could not extract coordinates from Google Maps URL. Please make sure you copied the full URL from Google Maps.'']\<rparr>
        else
          let newTask = \<lparr>task_id = now e (clockReads st), name = taskName st,
                           location = locationName st, task_lat = coords_lat coords,
                           task_lng = coords_lng coords, mapsUrl = googleMapsUrl st\<rparr>
          in st\<lparr>tasks := tasks st @ [newTask], taskName := [], locationName := [],
                googleMapsUrl := [], clockReads := Suc (clockReads st)\<rparr>)"

text \<open>\<^verbatim>\<open>deleteTask\<close>, lines 159 to 166.\<close>

definition deleteTask :: "int \<Rightarrow> app \<Rightarrow> app" where
  "deleteTask i st =
     st\<lparr>tasks := filter (\<lambda>t. task_id t \<noteq> i) (tasks st),
        notifiedTasks := notifiedTasks st - {i}\<rparr>"

text \<open>
  \<^verbatim>\<open>toggleTracking\<close>, lines 168 to 176; \<open>answer\<close> is what the user replies if the
  browser asks for the permission to show notifications.
\<close>

definition toggleTracking :: "permission \<Rightarrow> app \<Rightarrow> app" where
  "toggleTracking answer st =
     st\<lparr>notificationPermission :=
          (if \<not> tracking st \<and> notificationPermission st = Default then answer
           else notificationPermission st),
        tracking := (\<not> tracking st)\<rparr>"

text \<open>\<^verbatim>\<open>dismissNotification\<close>, lines 178 to 180.\<close>

definition dismissNotification :: "int \<Rightarrow> app \<Rightarrow> app" where
  "dismissNotification i st = st\<lparr>notifications := filter (\<lambda>n. notif_id n \<noteq> i) (notifications st)\<rparr>"

section \<open>The location watcher\<close>

text \<open>
  The effect of lines 15 to 35 has the dependencies \<^verbatim>\<open>[tracking, tasks]\<close>. React runs
  it after a render in which one of the two has changed, and not otherwise. When it
  runs and \<^verbatim>\<open>tracking\<close> is set, it registers with \<^verbatim>\<open>watchPosition\<close> a callback that
  calls the \<^verbatim>\<open>checkProximity\<close> of that render; the callback registered before is
  cleared. So the closure in use is the one of the last render in which \<^verbatim>\<open>tracking\<close>
  or \<^verbatim>\<open>tasks\<close> changed. (The browser is taken to have a geolocation service.)
\<close>

definition subscribe :: "app \<Rightarrow> closure option" where
  "subscribe st =
     (if tracking st then Some \<lparr>cl_tasks = tasks st, cl_notifiedTasks = notifiedTasks st\<rparr>
      else None)"

text \<open>The success callback, lines 18 to 25, and the error callback, lines 26 to 29.\<close>

definition onPosition :: "env \<Rightarrow> closure \<Rightarrow> position \<Rightarrow> app \<Rightarrow> app" where
  "onPosition e cl newLocation st = checkProximity e cl newLocation (st\<lparr>userLocation := Some newLocation\<rparr>)"

definition onPositionError :: "env \<Rightarrow> app \<Rightarrow> app" where
  "onPositionError e st =
     st\<lparr>notifications := notifications st @
           [\<lparr>notif_id = now e (clockReads st), notif_text = ''Location access denied or unavailable''\<rparr>],
        clockReads := Suc (clockReads st)\<rparr>"

text \<open>
  What can happen to the component, and the component with its registered callback.
  An array made by \<^verbatim>\<open>[...tasks, newTask]\<close> or by \<^verbatim>\<open>tasks.filter\<close> is a new object,
  so the effect runs again after every \<^verbatim>\<open>setTasks\<close>; \<^verbatim>\<open>addTask\<close> calls \<^verbatim>\<open>setTasks\<close>
  only when it adds a task.
\<close>

datatype event =
    PositionUpdate position
  | PositionError
  | TypeTaskName string
  | TypeLocationName string
  | TypeGoogleMapsUrl string
  | ClickAddTask
  | ClickDeleteTask int
  | ClickToggleTracking permission
  | ClickDismiss int

fun step :: "env \<Rightarrow> app \<times> closure option \<Rightarrow> event \<Rightarrow> app \<times> closure option" where
  "step e (st, w) (PositionUpdate p) =
     (case w of None \<Rightarrow> (st, w) | Some cl \<Rightarrow> (onPosition e cl p st, w))"
| "step e (st, w) PositionError =
     (case w of None \<Rightarrow> (st, w) | Some cl \<Rightarrow> (onPositionError e st, w))"
| "step e (st, w) (TypeTaskName s) = (st\<lparr>taskName := s\<rparr>, w)"
| "step e (st, w) (TypeLocationName s) = (st\<lparr>locationName := s\<rparr>, w)"
| "step e (st, w) (TypeGoogleMapsUrl s) = (st\<lparr>googleMapsUrl := s\<rparr>, w)"
| "step e (st, w) ClickAddTask =
     (let st' = addTask e st in (st', if tasks st' = tasks st then w else subscribe st'))"
| "step e (st, w) (ClickDeleteTask i) = (let st' = deleteTask i st in (st', subscribe st'))"
| "step e (st, w) (ClickToggleTracking answer) =
     (let st' = toggleTracking answer st in (st', subscribe st'))"
| "step e (st, w) (ClickDismiss i) = (dismissNotification i st, w)"

definition initial :: app where
  "initial = \<lparr>tasks = [], taskName = [], locationName = [], googleMapsUrl = [],
     userLocation = None, notifications = [], tracking = False, notifiedTasks = {},
     alerts = [], browserNotifications = [], notificationPermission = Default,
     clockReads = 0\<rparr>"

text \<open>The alerts that a step has added to the in-app list.\<close>

definition newAlerts :: "app \<Rightarrow> app \<Rightarrow> notification list" where
  "newAlerts before after = drop (length (notifications before)) (notifications after)"

section \<open>Notions used in the statements\<close>

text \<open>
  The two conditions that \<^verbatim>\<open>checkProximity\<close> tests for a task: the first branch is
  taken (an alert is sent), the second branch is taken (the identifier is deleted).
\<close>

definition distance_to :: "env \<Rightarrow> task \<Rightarrow> position \<Rightarrow> jsnum" where
  "distance_to e t p = calculateDistance e (lat p) (lng p) (task_lat t) (task_lng t)"

definition alerting :: "env \<Rightarrow> closure \<Rightarrow> position \<Rightarrow> task \<Rightarrow> bool" where
  "alerting e cl p t =
     (js_le (calculateDistance e (lat p) (lng p) (task_lat t) (task_lng t)) proximityThreshold
      \<and> task_id t \<notin> cl_notifiedTasks cl)"

definition far :: "env \<Rightarrow> position \<Rightarrow> task \<Rightarrow> bool" where
  "far e p t =
     js_gt (calculateDistance e (lat p) (lng p) (task_lat t) (task_lng t)) (proximityThreshold * 2)"

text \<open>The set of notified identifiers after the loop has gone through a list of tasks.\<close>

fun track :: "env \<Rightarrow> closure \<Rightarrow> position \<Rightarrow> int set \<Rightarrow> task list \<Rightarrow> int set" where
  "track e cl p S [] = S"
| "track e cl p S (t # ts) =
     track e cl p (if alerting e cl p t then insert (task_id t) S
                   else if far e p t then S - {task_id t} else S) ts"

text \<open>A run of the component from its first render, and the number of alerts that each
  event of a run adds.\<close>

definition run_events :: "env \<Rightarrow> event list \<Rightarrow> app \<times> closure option" where
  "run_events e evs = foldl (step e) (initial, None) evs"

fun alert_counts :: "env \<Rightarrow> app \<times> closure option \<Rightarrow> event list \<Rightarrow> nat list" where
  "alert_counts e c [] = []"
| "alert_counts e c (ev # evs) =
     length (newAlerts (fst c) (fst (step e c ev))) # alert_counts e (step e c ev) evs"

text \<open>
  The closure that a render of the state \<open>st\<close> makes: it is the one a callback has
  when it was registered in that state (\<open>subscribe\<close>). For comparison, the alert counts
  of location updates that are each handled by the closure of the state they find;
  this is not what the component does with successive updates (see \<open>step\<close>).
\<close>

definition current :: "app \<Rightarrow> closure" where
  "current st = \<lparr>cl_tasks = tasks st, cl_notifiedTasks = notifiedTasks st\<rparr>"

fun alert_counts_current :: "env \<Rightarrow> app \<Rightarrow> position list \<Rightarrow> nat list" where
  "alert_counts_current e st [] = []"
| "alert_counts_current e st (p # ps) =
     length (newAlerts st (onPosition e (current st) p st))
       # alert_counts_current e (onPosition e (current st) p st) ps"

text \<open>
  The invariant of the data model: every notified identifier is the identifier of a
  task in the list. \<open>watching\<close> says that the registered callback, if there is one,
  was made by a render with the current task list.
\<close>

definition invariant :: "app \<Rightarrow> bool" where
  "invariant st = (notifiedTasks st \<subseteq> task_id ` set (tasks st))"

definition watching :: "app \<times> closure option \<Rightarrow> bool" where
  "watching c = (case snd c of None \<Rightarrow> True | Some cl \<Rightarrow> cl_tasks cl = tasks (fst c))"

subsection \<open>A concrete run\<close>

text \<open>
  An environment for concrete runs: a clock that advances by one millisecond at every
  reading, and in the place of \<^verbatim>\<open>calculateDistance\<close> a function that charges 111195
  metres for a degree of latitude or longitude (\<^verbatim>\<open>NaN\<close> when a coordinate of the task
  is not a number).
\<close>

definition standin :: env where
  "standin = \<lparr>now = (\<lambda>k. 1700000000000 + int k),
     calculateDistance = (\<lambda>lat1 lon1 lat2 lon2.
        case (lat2, lon2) of
          (Number a, Number b) \<Rightarrow> Number (111195 * (\<bar>lat1 - a\<bar> + \<bar>lon1 - b\<bar>))
        | _ \<Rightarrow> NaN)\<rparr>"

text \<open>The user adds one task and starts tracking.\<close>

definition prepare :: "event list" where
  "prepare = [TypeTaskName ''Buy drill'', TypeLocationName ''Home Depot'',
     TypeGoogleMapsUrl ''https://maps.google.com/@40.0000,-75.0000,15z'', ClickAddTask,
     ClickToggleTracking Granted]"

definition drill :: task where
  "drill = \<lparr>task_id = 1700000000000, name = ''Buy drill'', location = ''Home Depot'',
     task_lat = Number 40, task_lng = Number (- 75),
     mapsUrl = ''https://maps.google.com/@40.0000,-75.0000,15z''\<rparr>"

definition tracked :: app where
  "tracked = initial\<lparr>tasks := [drill], tracking := True, notificationPermission := Granted,
     clockReads := 1\<rparr>"

text \<open>The position \<open>d\<close> metres north of the task.\<close>

definition at_metres :: "real \<Rightarrow> position" where
  "at_metres d = \<lparr>lat = 40 + d / 111195, lng = - 75\<rparr>"

text \<open>
  Two more tasks at the same place, and the component tracking the three of them when
  the second has been notified. \<open>resumed\<close> has the same task list and the same notified
  set after more has happened: an alert is on display and the clock has been read
  twelve times.
\<close>

definition nails :: task where
  "nails = \<lparr>task_id = 1700000000007, name = ''Buy nails'', location = ''Hardware Store'',
     task_lat = Number 40, task_lng = Number (- 75),
     mapsUrl = ''https://maps.google.com/@40.0000,-75.0000,15z''\<rparr>"

definition paint :: task where
  "paint = \<lparr>task_id = 1700000000009, name = ''Buy paint'', location = ''Paint Shop'',
     task_lat = Number 40, task_lng = Number (- 75),
     mapsUrl = ''https://maps.google.com/@40.0000,-75.0000,15z''\<rparr>"

definition three :: app where
  "three = tracked\<lparr>tasks := [drill, nails, paint], notifiedTasks := {1700000000007}\<rparr>"

definition resumed :: app where
  "resumed = three\<lparr>userLocation := Some (at_metres 2000),
     notifications := [\<lparr>notif_id = 1700000000011,
                        notif_text = ''Location access denied or unavailable''\<rparr>],
     clockReads := 12\<rparr>"

definition short_link_form :: app where
  "short_link_form = initial\<lparr>taskName := ''Buy drill'', locationName := ''Home Depot'',
     googleMapsUrl := ''https://maps.app.goo.gl/AbCdEf123''\<rparr>"

subsection \<open>Decimal literals and matches\<close>

text \<open>
  The strings that \<^verbatim>\<open>-?\d+\.\d+\<close> matches as a whole: an optional minus sign, digits,
  a point, digits. \<open>no_digit_ahead s\<close> says that \<open>s\<close> does not begin with a digit, so
  that a literal before it ends there.
\<close>

definition is_digits :: "string \<Rightarrow> bool" where
  "is_digits s = (s \<noteq> [] \<and> list_all (accepts Digit) s)"

definition is_unsigned :: "string \<Rightarrow> bool" where
  "is_unsigned s =
     (let ip = takeWhile (accepts Digit) s; r = dropWhile (accepts Digit) s
      in ip \<noteq> [] \<and> (case r of [] \<Rightarrow> False | c # fp \<Rightarrow> c = CHR ''.'' \<and> is_digits fp))"

fun is_decimal :: "string \<Rightarrow> bool" where
  "is_decimal [] = False"
| "is_decimal (c # cs) = (if c = CHR ''-'' then is_unsigned cs else is_unsigned (c # cs))"

definition no_digit_ahead :: "string \<Rightarrow> bool" where
  "no_digit_ahead s = (case s of [] \<Rightarrow> True | c # _ \<Rightarrow> \<not> accepts Digit c)"

text \<open>\<open>no_match_before r pre s\<close>: in the string \<open>pre @ s\<close> the pattern \<open>r\<close> matches at no
  position inside \<open>pre\<close>.\<close>

fun no_match_before :: "regex \<Rightarrow> string \<Rightarrow> string \<Rightarrow> bool" where
  "no_match_before r [] s = True"
| "no_match_before r (x # xs) s = (run r (x # xs @ s) = [] \<and> no_match_before r xs s)"

text \<open>The range of a coordinate in the data model of the specification.\<close>

definition in_range :: "coords \<Rightarrow> bool" where
  "in_range c = (case c of
      Coords (Number x) (Number y) \<Rightarrow> - 90 \<le> x \<and> x \<le> 90 \<and> - 180 \<le> y \<and> y \<le> 180
    | _ \<Rightarrow> False)"

text \<open>\<^verbatim>\<open>extractCoordinates\<close> with the branch of lines 61 to 66 (pattern 4) taken out.\<close>

definition extractCoordinates_without_pattern4 :: "string \<Rightarrow> coords" where
  "extractCoordinates_without_pattern4 url =
     (case str_match pattern1 url of Some m1 \<Rightarrow> from_match m1 | None \<Rightarrow>
      (case str_match pattern2 url of Some m2 \<Rightarrow> from_match m2 | None \<Rightarrow>
       (case str_match pattern3 url of Some m3 \<Rightarrow> from_match m3 | None \<Rightarrow>
         (if str_includes url ''maps.app.goo.gl'' \<or> str_includes url ''goo.gl'' then SHORT_URL
          else Null))))"

section \<open>Matching\<close>

lemma run_suffix: "m \<in> set (run r s) \<Longrightarrow> suffix (snd m) s"
proof (induction r s arbitrary: m rule: run.induct)
  case (3 a b s)
  from "3.prems" obtain m1 m2 where m1: "m1 \<in> set (run a s)" and m2: "m2 \<in> set (run b (snd m1))"
    and m: "snd m = snd m2"
    by auto
  from "3.IH"(1) [OF m1] "3.IH"(2) [OF m1 m2] m show ?case
    by (metis suffix_order.trans)
next
  case (6 c x xs)
  from "6.prems" have acc: "accepts c x" and "m \<in> set (run (Plus c) xs) \<or> m = ([], xs)"
    by (auto split: if_splits)
  then have "suffix (snd m) xs" using "6.IH" [OF acc] by (cases m) auto
  then show ?case by (simp add: suffix_Cons)
qed (auto split: if_splits simp: suffix_Cons)

lemma run_Seq_empty: "run (Seq a b) s = [] \<longleftrightarrow> (\<forall>m \<in> set (run a s). run b (snd m) = [])"
  by auto

lemma run_Seq_mem:
  "m \<in> set (run (Seq a b) s) \<longleftrightarrow>
     (\<exists>m1 \<in> set (run a s). \<exists>m2 \<in> set (run b (snd m1)). m = (fst m1 @ fst m2, snd m2))"
  by auto

lemma run_Lit_Seq:
  "run (Seq (Atom (Lit c)) r) s = (case s of [] \<Rightarrow> [] | x # xs \<Rightarrow> if x = c then run r xs else [])"
  by (cases s) simp_all

lemma run_lit: "run (lit cs r) s = (if prefix cs s then run r (drop (length cs) s) else [])"
proof (induction cs arbitrary: s)
  case Nil
  then show ?case by simp
next
  case (Cons c cs)
  show ?case
  proof (cases s)
    case Nil
    then show ?thesis by simp
  next
    case (Cons x xs)
    then show ?thesis
      using Cons.IH [of xs] by (simp del: run.simps add: run_Lit_Seq)
  qed
qed

lemma run_Atom_mem: "m \<in> set (run (Atom c) s) \<longleftrightarrow> (\<exists>x. accepts c x \<and> s = x # snd m \<and> fst m = [])"
  by (cases s; cases m) auto

lemma str_match_None: "str_match r s = None \<longleftrightarrow> (\<forall>t. suffix t s \<longrightarrow> run r t = [])"
proof (induction s)
  case Nil
  then show ?case by (simp split: list.splits)
next
  case (Cons x xs)
  then show ?case by (auto simp: suffix_Cons split: list.splits)
qed

lemma str_match_Some:
  "str_match r s = Some g \<Longrightarrow> \<exists>t m. suffix t s \<and> m \<in> set (run r t) \<and> g = fst m"
proof (induction s)
  case Nil
  then obtain m ms where "run r [] = m # ms" and "g = fst m"
    by (cases "run r []") simp_all
  then have "suffix [] ([]::string) \<and> m \<in> set (run r []) \<and> g = fst m" by simp
  then show ?case by (intro exI)
next
  case (Cons x xs)
  show ?case
  proof (cases "run r (x # xs)")
    case Nil
    with Cons.prems have "str_match r xs = Some g" by simp
    with Cons.IH obtain t m where "suffix t xs" "m \<in> set (run r t)" "g = fst m" by blast
    then have "suffix t (x # xs) \<and> m \<in> set (run r t) \<and> g = fst m"
      by (simp add: suffix_ConsI)
    then show ?thesis by (intro exI)
  next
    case (Cons m ms)
    with Cons.prems have "g = fst m" by simp
    with Cons have "suffix (x # xs) (x # xs) \<and> m \<in> set (run r (x # xs)) \<and> g = fst m"
      by simp
    then show ?thesis by (intro exI)
  qed
qed

lemma str_match_head: "run r s = m # ms \<Longrightarrow> str_match r s = Some (fst m)"
  by (cases s) simp_all

lemma str_match_skip: "no_match_before r pre s \<Longrightarrow> str_match r (pre @ s) = str_match r s"
  by (induction pre) simp_all

lemma no_match_before_absent: "c \<notin> set pre \<Longrightarrow> no_match_before (lit (c # cs) r) pre s"
  by (induction pre) (auto simp del: run.simps simp add: run_Lit_Seq)

subsection \<open>Decimal literals\<close>

lemma is_unsigned_iff:
  "is_unsigned s \<longleftrightarrow> (\<exists>ip fp. s = ip @ CHR ''.'' # fp \<and> is_digits ip \<and> is_digits fp)"
proof
  assume u: "is_unsigned s"
  let ?ip = "takeWhile (accepts Digit) s" and ?r = "dropWhile (accepts Digit) s"
  from u obtain fp where r: "?r = CHR ''.'' # fp" and fp: "is_digits fp" and ip: "?ip \<noteq> []"
    by (auto simp: is_unsigned_def Let_def split: list.splits)
  have "s = ?ip @ ?r" by simp
  moreover have "is_digits ?ip"
    using ip by (auto simp: is_digits_def list_all_iff dest: set_takeWhileD)
  ultimately show "\<exists>ip fp. s = ip @ CHR ''.'' # fp \<and> is_digits ip \<and> is_digits fp"
    using r fp by metis
next
  assume "\<exists>ip fp. s = ip @ CHR ''.'' # fp \<and> is_digits ip \<and> is_digits fp"
  then obtain ip fp where s: "s = ip @ CHR ''.'' # fp" and ip: "is_digits ip" and fp: "is_digits fp"
    by blast
  from ip have all: "\<forall>x \<in> set ip. accepts Digit x" by (simp add: is_digits_def list_all_iff)
  have "takeWhile (accepts Digit) s = ip"
    unfolding s using all by (simp add: takeWhile_append2)
  moreover have "dropWhile (accepts Digit) s = CHR ''.'' # fp"
    unfolding s using all by (simp add: dropWhile_append2)
  ultimately show "is_unsigned s"
    using ip fp by (simp add: is_unsigned_def is_digits_def)
qed

lemma is_decimal_iff:
  "is_decimal d \<longleftrightarrow>
     (\<exists>sg ip fp. d = sg @ ip @ CHR ''.'' # fp \<and> (sg = [] \<or> sg = ''-'') \<and> is_digits ip \<and> is_digits fp)"
proof
  assume d: "is_decimal d"
  then obtain c cs where dc: "d = c # cs" by (cases d) auto
  show "\<exists>sg ip fp. d = sg @ ip @ CHR ''.'' # fp \<and> (sg = [] \<or> sg = ''-'') \<and> is_digits ip \<and> is_digits fp"
  proof (cases "c = CHR ''-''")
    case True
    with d dc have "is_unsigned cs" by simp
    then obtain ip fp where "cs = ip @ CHR ''.'' # fp" "is_digits ip" "is_digits fp"
      unfolding is_unsigned_iff by blast
    with dc True have "d = ''-'' @ ip @ CHR ''.'' # fp \<and> is_digits ip \<and> is_digits fp" by simp
    then show ?thesis by blast
  next
    case False
    with d dc have "is_unsigned d" by simp
    then obtain ip fp where "d = ip @ CHR ''.'' # fp" "is_digits ip" "is_digits fp"
      unfolding is_unsigned_iff by blast
    then have "d = [] @ ip @ CHR ''.'' # fp \<and> is_digits ip \<and> is_digits fp" by simp
    then show ?thesis by blast
  qed
next
  assume "\<exists>sg ip fp. d = sg @ ip @ CHR ''.'' # fp \<and> (sg = [] \<or> sg = ''-'') \<and> is_digits ip \<and> is_digits fp"
  then obtain sg ip fp where d: "d = sg @ ip @ CHR ''.'' # fp" and sg: "sg = [] \<or> sg = ''-''"
    and ip: "is_digits ip" and fp: "is_digits fp" by blast
  have u: "is_unsigned (ip @ CHR ''.'' # fp)"
    unfolding is_unsigned_iff using ip fp by blast
  from sg show "is_decimal d"
  proof
    assume "sg = []"
    moreover from ip obtain x xs where "ip = x # xs" "x \<noteq> CHR ''-''"
      by (cases ip) (auto simp: is_digits_def)
    ultimately show ?thesis using u d by simp
  next
    assume "sg = ''-''"
    then show ?thesis using u d by simp
  qed
qed

lemma is_unsigned_decimal: "is_unsigned u \<Longrightarrow> is_decimal u \<and> is_decimal (CHR ''-'' # u)"
proof -
  assume u: "is_unsigned u"
  then obtain ip fp where "u = ip @ CHR ''.'' # fp" "is_digits ip" "is_digits fp"
    unfolding is_unsigned_iff by blast
  then have "u = [] @ ip @ CHR ''.'' # fp \<and> CHR ''-'' # u = ''-'' @ ip @ CHR ''.'' # fp
      \<and> is_digits ip \<and> is_digits fp" by simp
  then show ?thesis unfolding is_decimal_iff by blast
qed

lemma to_double_number: "to_double n d \<noteq> NaN \<and> to_double n d \<noteq> Undefined"
  by (simp add: to_double_def Let_def)

lemma negate_number: "x \<noteq> NaN \<Longrightarrow> x \<noteq> Undefined \<Longrightarrow> negate x \<noteq> NaN \<and> negate x \<noteq> Undefined"
  by (cases x) simp_all

lemma parse_unsigned_parts:
  assumes "is_digits ip" and "is_digits fp"
  shows "parse_unsigned (ip @ CHR ''.'' # fp) = to_double (digits_value 0 (ip @ fp)) (10 ^ length fp)"
proof -
  from assms have ip: "\<forall>x \<in> set ip. accepts Digit x" and fp: "\<forall>x \<in> set fp. accepts Digit x"
    and ne: "ip \<noteq> []"
    by (simp_all add: is_digits_def list_all_iff)
  have 1: "takeWhile (accepts Digit) (ip @ CHR ''.'' # fp) = ip"
    using ip by (simp add: takeWhile_append2)
  have 2: "dropWhile (accepts Digit) (ip @ CHR ''.'' # fp) = CHR ''.'' # fp"
    using ip by (simp add: dropWhile_append2)
  have 3: "takeWhile (accepts Digit) fp = fp"
    using fp by (simp add: takeWhile_eq_all_conv)
  show ?thesis
    unfolding parse_unsigned_def Let_def 1 2
    using ne by (simp add: 3 del: accepts.simps takeWhile_eq_all_conv)
qed

lemma parseFloat_parts:
  assumes "is_digits ip" and "is_digits fp"
  shows "parseFloat (ip @ CHR ''.'' # fp) = to_double (digits_value 0 (ip @ fp)) (10 ^ length fp)"
    and "parseFloat (''-'' @ ip @ CHR ''.'' # fp)
           = negate (to_double (digits_value 0 (ip @ fp)) (10 ^ length fp))"
proof -
  from assms(1) obtain x xs where ip: "ip = x # xs" and x: "x \<noteq> CHR ''-''"
    by (cases ip) (auto simp: is_digits_def)
  have "parseFloat (ip @ CHR ''.'' # fp) = parse_unsigned (ip @ CHR ''.'' # fp)"
    using x by (simp add: ip)
  then show "parseFloat (ip @ CHR ''.'' # fp) = to_double (digits_value 0 (ip @ fp)) (10 ^ length fp)"
    by (simp only: parse_unsigned_parts [OF assms])
  show "parseFloat (''-'' @ ip @ CHR ''.'' # fp)
          = negate (to_double (digits_value 0 (ip @ fp)) (10 ^ length fp))"
    by (simp add: parse_unsigned_parts [OF assms])
qed

lemma parseFloat_decimal:
  assumes "is_decimal d"
  shows "parseFloat d \<noteq> NaN \<and> parseFloat d \<noteq> Undefined"
proof -
  from assms obtain sg ip fp where d: "d = sg @ ip @ CHR ''.'' # fp" and sg: "sg = [] \<or> sg = ''-''"
    and ip: "is_digits ip" and fp: "is_digits fp"
    unfolding is_decimal_iff by blast
  from sg show ?thesis
  proof
    assume "sg = []"
    then have "parseFloat d = to_double (digits_value 0 (ip @ fp)) (10 ^ length fp)"
      using parseFloat_parts(1) [OF ip fp] d by simp
    then show ?thesis by (simp only: to_double_number simp_thms)
  next
    assume "sg = ''-''"
    then have "parseFloat d = negate (to_double (digits_value 0 (ip @ fp)) (10 ^ length fp))"
      using parseFloat_parts(2) [OF ip fp] d by simp
    then show ?thesis using negate_number to_double_number by simp
  qed
qed

subsection \<open>Every match captures two decimal literals\<close>

lemma run_Plus_sound:
  "m \<in> set (run (Plus c) s) \<Longrightarrow>
     fst m = [] \<and> (\<exists>ds. ds \<noteq> [] \<and> list_all (accepts c) ds \<and> s = ds @ snd m)"
proof (induction s)
  case Nil
  then show ?case by simp
next
  case (Cons x xs)
  from Cons.prems have acc: "accepts c x" and "m \<in> set (run (Plus c) xs) \<or> m = ([], xs)"
    by (auto split: if_splits)
  then show ?case
  proof (elim disjE)
    assume "m \<in> set (run (Plus c) xs)"
    with Cons.IH obtain ds where "fst m = []" "list_all (accepts c) ds" "xs = ds @ snd m"
      by blast
    with acc have "fst m = [] \<and> x # ds \<noteq> [] \<and> list_all (accepts c) (x # ds) \<and> x # xs = (x # ds) @ snd m"
      by simp
    then show ?thesis by blast
  next
    assume "m = ([], xs)"
    with acc have "fst m = [] \<and> [x] \<noteq> [] \<and> list_all (accepts c) [x] \<and> x # xs = [x] @ snd m"
      by simp
    then show ?thesis by blast
  qed
qed

lemma run_Plus_Digit_sound:
  "m \<in> set (run (Plus Digit) s) \<Longrightarrow> fst m = [] \<and> (\<exists>ds. is_digits ds \<and> s = ds @ snd m)"
  using run_Plus_sound [of m Digit s] by (auto simp: is_digits_def)

lemma run_unsigned_sound:
  assumes "m \<in> set (run (Seq (Plus Digit) (Seq (Atom (Lit CHR ''.'')) (Plus Digit))) s)"
  shows "fst m = [] \<and> (\<exists>u. is_unsigned u \<and> s = u @ snd m)"
proof -
  from assms obtain m1 m2 where m1: "m1 \<in> set (run (Plus Digit) s)"
    and m2: "m2 \<in> set (run (Seq (Atom (Lit CHR ''.'')) (Plus Digit)) (snd m1))"
    and m: "m = (fst m1 @ fst m2, snd m2)"
    unfolding run_Seq_mem [of m] by blast
  from m2 obtain m3 m4 where m3: "m3 \<in> set (run (Atom (Lit CHR ''.'')) (snd m1))"
    and m4: "m4 \<in> set (run (Plus Digit) (snd m3))" and m2': "m2 = (fst m3 @ fst m4, snd m4)"
    unfolding run_Seq_mem [of m2] by blast
  from run_Plus_Digit_sound [OF m1] obtain ip where ip: "is_digits ip" "s = ip @ snd m1" "fst m1 = []"
    by blast
  from m3 have dot: "snd m1 = CHR ''.'' # snd m3" "fst m3 = []"
    unfolding run_Atom_mem by auto
  from run_Plus_Digit_sound [OF m4] obtain fp where fp: "is_digits fp" "snd m3 = fp @ snd m4" "fst m4 = []"
    by blast
  have "is_unsigned (ip @ CHR ''.'' # fp)"
    unfolding is_unsigned_iff using ip(1) fp(1) by blast
  moreover have "s = (ip @ CHR ''.'' # fp) @ snd m"
    using ip(2) dot(1) fp(2) m m2' by simp
  moreover have "fst m = []" using m m2' ip(3) dot(2) fp(3) by simp
  ultimately show ?thesis by blast
qed

lemma run_decimal_sound:
  assumes "m \<in> set (run decimal s)"
  shows "fst m = [] \<and> (\<exists>d. is_decimal d \<and> s = d @ snd m)"
proof -
  let ?u = "Seq (Plus Digit) (Seq (Atom (Lit CHR ''.'')) (Plus Digit))"
  from assms obtain m1 m2 where m1: "m1 \<in> set (run (Opt (Atom (Lit CHR ''-''))) s)"
    and m2: "m2 \<in> set (run ?u (snd m1))" and m: "m = (fst m1 @ fst m2, snd m2)"
    unfolding decimal_def run_Seq_mem [of m] by blast
  from run_unsigned_sound [OF m2] obtain u where u: "is_unsigned u" "snd m1 = u @ snd m2" "fst m2 = []"
    by blast
  from m1 have "m1 \<in> set (run (Atom (Lit CHR ''-'')) s) \<or> m1 = ([], s)" by auto
  then show ?thesis
  proof
    assume "m1 \<in> set (run (Atom (Lit CHR ''-'')) s)"
    then have "s = CHR ''-'' # snd m1" "fst m1 = []" unfolding run_Atom_mem by auto
    with u m have "fst m = [] \<and> is_decimal (CHR ''-'' # u) \<and> s = (CHR ''-'' # u) @ snd m"
      by (simp add: is_unsigned_decimal)
    then show ?thesis by blast
  next
    assume "m1 = ([], s)"
    with u m have "fst m = [] \<and> is_decimal u \<and> s = u @ snd m"
      by (simp add: is_unsigned_decimal)
    then show ?thesis by blast
  qed
qed

lemma run_Group_decimal_sound:
  assumes "m \<in> set (run (Group decimal) s)"
  shows "\<exists>d. fst m = [d] \<and> is_decimal d \<and> s = d @ snd m"
proof -
  from assms obtain m' where m': "m' \<in> set (run decimal s)"
    and m: "m = (take (length s - length (snd m')) s # fst m', snd m')" by auto
  from run_decimal_sound [OF m'] obtain d where d: "is_decimal d" "s = d @ snd m'" "fst m' = []"
    by blast
  from d(2) have "take (length s - length (snd m')) s = d"
    by (metis add_diff_cancel_right' append_eq_conv_conj length_append)
  with m d show ?thesis by simp
qed

lemma run_pair_sound:
  assumes "m \<in> set (run (Seq (Group decimal) (lit sep (Group decimal))) s)"
  shows "\<exists>a b. fst m = [a, b] \<and> is_decimal a \<and> is_decimal b \<and> s = a @ sep @ b @ snd m"
proof -
  from assms obtain m1 m2 where m1: "m1 \<in> set (run (Group decimal) s)"
    and m2: "m2 \<in> set (run (lit sep (Group decimal)) (snd m1))" and m: "m = (fst m1 @ fst m2, snd m2)"
    unfolding run_Seq_mem [of m] by blast
  from run_Group_decimal_sound [OF m1] obtain a where a: "fst m1 = [a]" "is_decimal a" "s = a @ snd m1"
    by blast
  from m2 have p: "prefix sep (snd m1)" and m2': "m2 \<in> set (run (Group decimal) (drop (length sep) (snd m1)))"
    unfolding run_lit by (simp_all del: run.simps split: if_splits)
  from run_Group_decimal_sound [OF m2'] obtain b where b: "fst m2 = [b]" "is_decimal b"
    "drop (length sep) (snd m1) = b @ snd m2" by blast
  from p b(3) have "snd m1 = sep @ b @ snd m2"
    by (metis append_eq_conv_conj prefix_def)
  with a b m show ?thesis by simp
qed

lemma run_lit_pair_sound:
  assumes "m \<in> set (run (lit pre (Seq (Group decimal) (lit sep (Group decimal)))) s)"
  shows "\<exists>a b. fst m = [a, b] \<and> is_decimal a \<and> is_decimal b \<and> s = pre @ a @ sep @ b @ snd m"
proof -
  from assms have p: "prefix pre s"
    and m': "m \<in> set (run (Seq (Group decimal) (lit sep (Group decimal))) (drop (length pre) s))"
    unfolding run_lit [of pre] by (simp_all del: run.simps split: if_splits)
  from run_pair_sound [OF m'] obtain a b where ab: "fst m = [a, b]" "is_decimal a" "is_decimal b"
    "drop (length pre) s = a @ sep @ b @ snd m" by blast
  from p ab(4) have "s = pre @ a @ sep @ b @ snd m"
    by (metis append_eq_conv_conj prefix_def)
  with ab show ?thesis by blast
qed

lemma str_match_pair:
  assumes "str_match (lit key (Seq (Group decimal) (lit sep (Group decimal)))) url = Some g"
  shows "\<exists>p a b q. g = [a, b] \<and> is_decimal a \<and> is_decimal b \<and> url = p @ key @ a @ sep @ b @ q"
proof -
  from str_match_Some [OF assms] obtain t m where t: "suffix t url"
    and m: "m \<in> set (run (lit key (Seq (Group decimal) (lit sep (Group decimal)))) t)"
    and g: "g = fst m" by blast
  from run_lit_pair_sound [OF m] obtain a b where ab: "fst m = [a, b]" "is_decimal a" "is_decimal b"
    "t = key @ a @ sep @ b @ snd m" by blast
  from t obtain w where "url = w @ t" by (auto simp: suffix_def)
  with ab(4) have "url = w @ key @ a @ sep @ b @ snd m" by simp
  with ab g have "g = [a, b] \<and> is_decimal a \<and> is_decimal b \<and> url = w @ key @ a @ sep @ b @ snd m"
    by simp
  then show ?thesis by (intro exI)
qed

lemma from_pair:
  assumes "\<exists>p a b q. g = [a, b] \<and> is_decimal a \<and> is_decimal b \<and> url = p @ key @ a @ sep @ b @ q"
    and "from_match g = Coords x y"
  shows "\<exists>p a b q. url = p @ key @ a @ sep @ b @ q \<and> is_decimal a \<and> is_decimal b
           \<and> x = parseFloat a \<and> y = parseFloat b
           \<and> x \<noteq> NaN \<and> x \<noteq> Undefined \<and> y \<noteq> NaN \<and> y \<noteq> Undefined"
proof -
  from assms(1) obtain p a b q where g: "g = [a, b]" and a: "is_decimal a" and b: "is_decimal b"
    and url: "url = p @ key @ a @ sep @ b @ q" by blast
  from g assms(2) have xy: "x = parseFloat a" "y = parseFloat b" by simp_all
  from parseFloat_decimal [OF a] parseFloat_decimal [OF b] xy
  have "x \<noteq> NaN \<and> x \<noteq> Undefined \<and> y \<noteq> NaN \<and> y \<noteq> Undefined" by simp
  with url a b xy have "url = p @ key @ a @ sep @ b @ q \<and> is_decimal a \<and> is_decimal b
           \<and> x = parseFloat a \<and> y = parseFloat b
           \<and> x \<noteq> NaN \<and> x \<noteq> Undefined \<and> y \<noteq> NaN \<and> y \<noteq> Undefined"
    by blast
  then show ?thesis by (intro exI)
qed

subsection \<open>The first match at a literal pair\<close>

lemma run_Plus_head:
  assumes "ds \<noteq> []" and "list_all (accepts c) ds" and "case rest of [] \<Rightarrow> True | x # _ \<Rightarrow> \<not> accepts c x"
  shows "\<exists>ms. run (Plus c) (ds @ rest) = ([], rest) # ms"
  using assms
proof (induction ds)
  case Nil
  then show ?case by simp
next
  case (Cons d ds)
  show ?case
  proof (cases "ds = []")
    case True
    have "run (Plus c) rest = []" using Cons.prems(3) by (cases rest) simp_all
    with True Cons.prems show ?thesis by simp
  next
    case False
    with Cons obtain ms where "run (Plus c) (ds @ rest) = ([], rest) # ms" by auto
    with Cons.prems show ?thesis by simp
  qed
qed

lemma run_Seq_head:
  assumes "run a s = m1 # ms1" and "run b (snd m1) = m2 # ms2"
  shows "\<exists>ms. run (Seq a b) s = (fst m1 @ fst m2, snd m2) # ms"
  using assms by simp

lemma run_unsigned_head:
  assumes "is_digits ip" and "is_digits fp" and "no_digit_ahead rest"
  shows "\<exists>ms. run (Seq (Plus Digit) (Seq (Atom (Lit CHR ''.'')) (Plus Digit)))
            (ip @ CHR ''.'' # fp @ rest) = ([], rest) # ms"
proof -
  obtain ms1 where 1: "run (Plus Digit) (ip @ CHR ''.'' # fp @ rest) = ([], CHR ''.'' # fp @ rest) # ms1"
    using run_Plus_head [of ip Digit "CHR ''.'' # fp @ rest"] assms(1) by (auto simp: is_digits_def)
  obtain ms2 where 2: "run (Plus Digit) (fp @ rest) = ([], rest) # ms2"
    using run_Plus_head [of fp Digit rest] assms(2,3) by (auto simp: is_digits_def no_digit_ahead_def)
  have 3: "run (Atom (Lit CHR ''.'')) (CHR ''.'' # fp @ rest) = [([], fp @ rest)]" by simp
  obtain ms3 where 4: "run (Seq (Atom (Lit CHR ''.'')) (Plus Digit)) (CHR ''.'' # fp @ rest) = ([], rest) # ms3"
    using run_Seq_head [OF 3, of "Plus Digit"] 2 by auto
  show ?thesis
    using run_Seq_head [OF 1, of "Seq (Atom (Lit CHR ''.'')) (Plus Digit)"] 4 by auto
qed

lemma run_decimal_head:
  assumes "is_decimal d" and "no_digit_ahead rest"
  shows "\<exists>ms. run decimal (d @ rest) = ([], rest) # ms"
proof -
  let ?u = "Seq (Plus Digit) (Seq (Atom (Lit CHR ''.'')) (Plus Digit))"
  from assms(1) obtain sg ip fp where d: "d = sg @ ip @ CHR ''.'' # fp" and sg: "sg = [] \<or> sg = ''-''"
    and ip: "is_digits ip" and fp: "is_digits fp"
    unfolding is_decimal_iff by blast
  obtain ms where u: "run ?u (ip @ CHR ''.'' # fp @ rest) = ([], rest) # ms"
    using run_unsigned_head [OF ip fp assms(2)] by blast
  from sg show ?thesis
  proof
    assume e: "sg = []"
    from ip obtain x xs where "ip = x # xs" "x \<noteq> CHR ''-''"
      by (cases ip) (auto simp: is_digits_def)
    then have o: "run (Opt (Atom (Lit CHR ''-''))) (d @ rest) = [([], d @ rest)]"
      using d e by simp
    show ?thesis
      unfolding decimal_def using run_Seq_head [OF o, of ?u] u d e by auto
  next
    assume e: "sg = ''-''"
    have o: "run (Opt (Atom (Lit CHR ''-''))) (d @ rest) =
        ([], ip @ CHR ''.'' # fp @ rest) # [([], d @ rest)]"
      using d e by simp
    show ?thesis
      unfolding decimal_def using run_Seq_head [OF o, of ?u] u by auto
  qed
qed

lemma run_Group_decimal_head:
  assumes "is_decimal d" and "no_digit_ahead rest"
  shows "\<exists>ms. run (Group decimal) (d @ rest) = ([d], rest) # ms"
proof -
  obtain ms where "run decimal (d @ rest) = ([], rest) # ms"
    using run_decimal_head [OF assms] by blast
  then show ?thesis by simp
qed

lemma run_pair_head:
  assumes "is_decimal a" and "is_decimal b" and "no_digit_ahead (sep @ b @ post)" and "no_digit_ahead post"
  shows "\<exists>ms. run (Seq (Group decimal) (lit sep (Group decimal))) (a @ sep @ b @ post) = ([a, b], post) # ms"
proof -
  obtain ms1 where 1: "run (Group decimal) (a @ sep @ b @ post) = ([a], sep @ b @ post) # ms1"
    using run_Group_decimal_head [OF assms(1,3)] by blast
  obtain ms2 where 2: "run (Group decimal) (b @ post) = ([b], post) # ms2"
    using run_Group_decimal_head [OF assms(2,4)] by blast
  have "run (lit sep (Group decimal)) (sep @ b @ post) = ([b], post) # ms2"
    unfolding run_lit using 2 by simp
  then show ?thesis
    using run_Seq_head [OF 1, of "lit sep (Group decimal)"] by auto
qed

lemma run_lit_pair_head:
  assumes "is_decimal a" and "is_decimal b" and "no_digit_ahead (sep @ b @ post)" and "no_digit_ahead post"
  shows "\<exists>ms. run (lit pre (Seq (Group decimal) (lit sep (Group decimal)))) (pre @ a @ sep @ b @ post)
            = ([a, b], post) # ms"
  unfolding run_lit [of pre] using run_pair_head [OF assms] by simp

lemma str_match_shape:
  assumes "is_decimal a" and "is_decimal b" and "no_digit_ahead post"
    and "sep = '','' \<or> sep = ''!4d''"
    and "no_match_before (lit key (Seq (Group decimal) (lit sep (Group decimal)))) pre
           (key @ a @ sep @ b @ post)"
  shows "str_match (lit key (Seq (Group decimal) (lit sep (Group decimal))))
           (pre @ key @ a @ sep @ b @ post) = Some [a, b]"
proof -
  let ?r = "lit key (Seq (Group decimal) (lit sep (Group decimal)))"
  have "no_digit_ahead (sep @ b @ post)"
    using assms(4) by (auto simp: no_digit_ahead_def)
  then obtain ms where "run ?r (key @ a @ sep @ b @ post) = ([a, b], post) # ms"
    using run_lit_pair_head [OF assms(1,2) _ assms(3), of sep key] by blast
  then have "str_match ?r (key @ a @ sep @ b @ post) = Some [a, b]"
    using str_match_head by fastforce
  then show ?thesis
    using str_match_skip [OF assms(5)] by simp
qed

subsection \<open>Pattern 4 needs pattern 1\<close>

lemma pattern4_matches_pattern1:
  assumes "run pattern4 t \<noteq> []"
  shows "\<exists>u. suffix u t \<and> run pattern1 u \<noteq> []"
proof -
  let ?rest = "Seq (Group decimal) (lit '','' (Group decimal))"
  let ?t' = "drop (length ''/maps/place/'') t"
  from assms have "run (Seq (Plus (NotLit CHR ''/'')) (lit ''/@'' ?rest)) ?t' \<noteq> []"
    unfolding pattern4_def run_lit by (simp del: run.simps split: if_splits)
  then obtain m where m: "m \<in> set (run (Plus (NotLit CHR ''/'')) ?t')"
    and r: "run (lit ''/@'' ?rest) (snd m) \<noteq> []"
    unfolding run_Seq_empty by blast
  from r have p: "prefix ''/@'' (snd m)"
    and r': "run ?rest (drop (length ''/@'') (snd m)) \<noteq> []"
    unfolding run_lit by (simp_all del: run.simps split: if_splits)
  from p obtain v where v: "snd m = ''/@'' @ v" by (auto simp: prefix_def)
  have "run pattern1 (CHR ''@'' # v) \<noteq> []"
    using r' v unfolding pattern1_def run_lit by (simp del: run.simps)
  moreover have "suffix (CHR ''@'' # v) t"
  proof -
    have "suffix (snd m) ?t'" using m by (rule run_suffix)
    moreover have "suffix ?t' t" by (rule suffix_drop)
    moreover have "suffix (CHR ''@'' # v) (snd m)" using v by (simp add: suffix_def)
    ultimately show ?thesis by (meson suffix_order.trans)
  qed
  ultimately show ?thesis by blast
qed

lemma str_match_pattern4_None:
  assumes "str_match pattern1 url = None"
  shows "str_match pattern4 url = None"
  unfolding str_match_None
proof (intro allI impI)
  fix t assume t: "suffix t url"
  show "run pattern4 t = []"
  proof (rule ccontr)
    assume "run pattern4 t \<noteq> []"
    then obtain u where "suffix u t" and "run pattern1 u \<noteq> []"
      using pattern4_matches_pattern1 by blast
    with t assms show False
      unfolding str_match_None by (meson suffix_order.trans)
  qed
qed

section \<open>\<^verbatim>\<open>extractCoordinates\<close>\<close>

lemmas eval_regex = pattern1_def pattern2_def pattern3_def pattern4_def decimal_def
  parse_unsigned_def digit_value_def to_double_def exponent_def round_half_even_def
  is_unsigned_def is_digits_def no_digit_ahead_def

text \<open>
  C6, as amended. Let \<open>a\<close> and \<open>b\<close> be decimal literals and \<open>post\<close> not begin with a
  digit. For a URL \<open>pre @ shape @ post\<close>, where the shape is \<^verbatim>\<open>@a,b\<close>, \<^verbatim>\<open>q=a,b\<close> or
  \<^verbatim>\<open>!3da!4db\<close>, the result is the pair of the values of \<open>a\<close> and \<open>b\<close>, provided that
  no pattern tried earlier matches anywhere in the URL and the shape's own pattern
  matches at no position inside \<open>pre\<close>. A URL of the shape
  \<^verbatim>\<open>/maps/place/<name>/@a,b\<close> is served by the first pattern, under the same condition
  on what precedes the \<^verbatim>\<open>@\<close>.
\<close>

theorem extract_first_embedded_pair:
  assumes "is_decimal a" and "is_decimal b" and "no_digit_ahead post"
  shows "(no_match_before pattern1 pre (''@'' @ a @ '','' @ b @ post) \<longrightarrow>
            extractCoordinates (pre @ ''@'' @ a @ '','' @ b @ post)
              = Coords (parseFloat a) (parseFloat b))
       \<and> (str_match pattern1 (pre @ ''q='' @ a @ '','' @ b @ post) = None \<and>
          no_match_before pattern2 pre (''q='' @ a @ '','' @ b @ post) \<longrightarrow>
            extractCoordinates (pre @ ''q='' @ a @ '','' @ b @ post)
              = Coords (parseFloat a) (parseFloat b))
       \<and> (str_match pattern1 (pre @ ''!3d'' @ a @ ''!4d'' @ b @ post) = None \<and>
          str_match pattern2 (pre @ ''!3d'' @ a @ ''!4d'' @ b @ post) = None \<and>
          no_match_before pattern3 pre (''!3d'' @ a @ ''!4d'' @ b @ post) \<longrightarrow>
            extractCoordinates (pre @ ''!3d'' @ a @ ''!4d'' @ b @ post)
              = Coords (parseFloat a) (parseFloat b))
       \<and> (no_match_before pattern1 (pre @ ''/maps/place/'' @ nm @ ''/'') (''@'' @ a @ '','' @ b @ post) \<longrightarrow>
            extractCoordinates (pre @ ''/maps/place/'' @ nm @ ''/@'' @ a @ '','' @ b @ post)
              = Coords (parseFloat a) (parseFloat b))"
proof (intro conjI impI)
  assume "no_match_before pattern1 pre (''@'' @ a @ '','' @ b @ post)"
  then have "str_match pattern1 (pre @ ''@'' @ a @ '','' @ b @ post) = Some [a, b]"
    unfolding pattern1_def using str_match_shape [OF assms, of "'',''" "''@''" pre] by simp
  then show "extractCoordinates (pre @ ''@'' @ a @ '','' @ b @ post) = Coords (parseFloat a) (parseFloat b)"
    by (simp add: extractCoordinates_def)
next
  assume h: "str_match pattern1 (pre @ ''q='' @ a @ '','' @ b @ post) = None \<and>
          no_match_before pattern2 pre (''q='' @ a @ '','' @ b @ post)"
  then have "str_match pattern2 (pre @ ''q='' @ a @ '','' @ b @ post) = Some [a, b]"
    unfolding pattern2_def using str_match_shape [OF assms, of "'',''" "''q=''" pre] by simp
  with h show "extractCoordinates (pre @ ''q='' @ a @ '','' @ b @ post) = Coords (parseFloat a) (parseFloat b)"
    by (simp add: extractCoordinates_def)
next
  assume h: "str_match pattern1 (pre @ ''!3d'' @ a @ ''!4d'' @ b @ post) = None \<and>
          str_match pattern2 (pre @ ''!3d'' @ a @ ''!4d'' @ b @ post) = None \<and>
          no_match_before pattern3 pre (''!3d'' @ a @ ''!4d'' @ b @ post)"
  then have "str_match pattern3 (pre @ ''!3d'' @ a @ ''!4d'' @ b @ post) = Some [a, b]"
    unfolding pattern3_def using str_match_shape [OF assms, of "''!4d''" "''!3d''" pre] by simp
  with h show "extractCoordinates (pre @ ''!3d'' @ a @ ''!4d'' @ b @ post) = Coords (parseFloat a) (parseFloat b)"
    by (simp add: extractCoordinates_def)
next
  assume "no_match_before pattern1 (pre @ ''/maps/place/'' @ nm @ ''/'') (''@'' @ a @ '','' @ b @ post)"
  then have "str_match pattern1 ((pre @ ''/maps/place/'' @ nm @ ''/'') @ ''@'' @ a @ '','' @ b @ post) = Some [a, b]"
    unfolding pattern1_def
    using str_match_shape [OF assms, of "'',''" "''@''" "pre @ ''/maps/place/'' @ nm @ ''/''"] by simp
  then show "extractCoordinates (pre @ ''/maps/place/'' @ nm @ ''/@'' @ a @ '','' @ b @ post) = Coords (parseFloat a) (parseFloat b)"
    by (simp add: extractCoordinates_def)
qed

text \<open>One URL of each shape.\<close>

theorem extract_first_embedded_pair_witness:
  "extractCoordinates ''https://maps.google.com/@40.0000,-75.0000,15z'' = Coords (Number 40) (Number (- 75))
   \<and> extractCoordinates ''https://maps.google.com/?q=40.5,-75.25&z=15'' = Coords (Number (81 / 2)) (Number (- (301 / 4)))
   \<and> extractCoordinates ''https://www.google.com/maps/data=!3d40.5!4d-75.25!5m1'' = Coords (Number (81 / 2)) (Number (- (301 / 4)))
   \<and> extractCoordinates ''https://www.google.com/maps/place/Home+Depot/@40.5,-75.25,17z'' = Coords (Number (81 / 2)) (Number (- (301 / 4)))"
proof -
  have 1: "extractCoordinates (''https://maps.google.com/'' @ ''@'' @ ''40.0000'' @ '','' @ ''-75.0000'' @ '',15z'')
      = Coords (parseFloat ''40.0000'') (parseFloat ''-75.0000'')"
    using extract_first_embedded_pair [of "''40.0000''" "''-75.0000''" "'',15z''" "''https://maps.google.com/''"]
    by (simp add: eval_regex)
  have 2: "extractCoordinates (''https://maps.google.com/?'' @ ''q='' @ ''40.5'' @ '','' @ ''-75.25'' @ ''&z=15'')
      = Coords (parseFloat ''40.5'') (parseFloat ''-75.25'')"
    using extract_first_embedded_pair [of "''40.5''" "''-75.25''" "''&z=15''" "''https://maps.google.com/?''"]
    by (simp add: eval_regex)
  have 3: "extractCoordinates (''https://www.google.com/maps/data='' @ ''!3d'' @ ''40.5'' @ ''!4d'' @ ''-75.25'' @ ''!5m1'')
      = Coords (parseFloat ''40.5'') (parseFloat ''-75.25'')"
    using extract_first_embedded_pair [of "''40.5''" "''-75.25''" "''!5m1''" "''https://www.google.com/maps/data=''"]
    by (simp add: eval_regex)
  have 4: "extractCoordinates (''https://www.google.com'' @ ''/maps/place/'' @ ''Home+Depot'' @ ''/@'' @ ''40.5'' @ '','' @ ''-75.25'' @ '',17z'')
      = Coords (parseFloat ''40.5'') (parseFloat ''-75.25'')"
    using extract_first_embedded_pair [of "''40.5''" "''-75.25''" "'',17z''" "''https://www.google.com''" "''Home+Depot''"]
    by (simp add: eval_regex)
  from 1 2 3 4 show ?thesis
    by (simp add: eval_regex)
qed

text \<open>C6 as stated fails: a pair embedded in the \<^verbatim>\<open>!3d...!4d...\<close> shape is not returned
  when the URL also holds an \<^verbatim>\<open>@lat,lng\<close> segment with other numbers, as the URLs of
  places do.\<close>

theorem extract_later_pair_counterexample:
  "is_decimal ''40.5'' \<and> is_decimal ''-75.5'' \<and> no_digit_ahead [] \<and>
   extractCoordinates (''https://maps.google.com/@40.0,-75.0,15z/data='' @ ''!3d'' @ ''40.5'' @ ''!4d'' @ ''-75.5'' @ [])
     \<noteq> Coords (parseFloat ''40.5'') (parseFloat ''-75.5'')"
  by (simp add: extractCoordinates_def eval_regex)

text \<open>What \<^verbatim>\<open>parseFloat\<close> makes of a literal that is not a double, and of one beyond the
  largest double.\<close>

lemma parseFloat_rounds: "parseFloat ''90.00000000000000000001'' = Number 90"
  by (simp add: parse_unsigned_def digit_value_def to_double_def exponent_def round_half_even_def)

lemma parseFloat_overflow:
  "parseFloat
      (''-1''
       @ ''000000000000000000000000000000000000000000000000000000000000''
       @ ''000000000000000000000000000000000000000000000000000000000000''
       @ ''000000000000000000000000000000000000000000000000000000000000''
       @ ''000000000000000000000000000000000000000000000000000000000000''
       @ ''000000000000000000000000000000000000000000000000000000000000''
       @ ''000000000''
       @ ''.0'') = MinusInfinity"
  by (simp add: parse_unsigned_def digit_value_def to_double_def exponent_def round_half_even_def)

text \<open>
  C7, as amended. The function checks no range. A pair it returns is
  \<^verbatim>\<open>parseFloat\<close> of two decimal literals that stand in the URL after \<^verbatim>\<open>@\<close>, \<^verbatim>\<open>q=\<close> or
  \<^verbatim>\<open>!3d\<close>, with \<^verbatim>\<open>,\<close> (after \<^verbatim>\<open>!3d\<close>: \<^verbatim>\<open>!4d\<close>) between them, and neither number is
  \<^verbatim>\<open>NaN\<close>; and for any two decimal literals \<open>a\<close> and \<open>b\<close> the URL \<^verbatim>\<open>@a,b\<close> returns
  \<^verbatim>\<open>parseFloat\<close> of \<open>a\<close> and of \<open>b\<close>, whatever their size.
\<close>

theorem extracted_pair_from_literals:
  "(extractCoordinates url = Coords x y \<longrightarrow>
      (\<exists>p key a sep b q. url = p @ key @ a @ sep @ b @ q
         \<and> (key = ''@'' \<and> sep = '','' \<or> key = ''q='' \<and> sep = '','' \<or> key = ''!3d'' \<and> sep = ''!4d'')
         \<and> is_decimal a \<and> is_decimal b \<and> x = parseFloat a \<and> y = parseFloat b
         \<and> x \<noteq> NaN \<and> x \<noteq> Undefined \<and> y \<noteq> NaN \<and> y \<noteq> Undefined))
   \<and> (is_decimal a' \<and> is_decimal b' \<longrightarrow>
        extractCoordinates (''@'' @ a' @ '','' @ b') = Coords (parseFloat a') (parseFloat b'))"
proof (intro conjI impI)
  assume r: "extractCoordinates url = Coords x y"
  have p1: "pattern1 = lit ''@'' (Seq (Group decimal) (lit '','' (Group decimal)))"
    and p2: "pattern2 = lit ''q='' (Seq (Group decimal) (lit '','' (Group decimal)))"
    and p3: "pattern3 = lit ''!3d'' (Seq (Group decimal) (lit ''!4d'' (Group decimal)))"
    by (simp_all only: pattern1_def pattern2_def pattern3_def)
  consider (1) g where "str_match pattern1 url = Some g" "from_match g = Coords x y"
    | (2) g where "str_match pattern2 url = Some g" "from_match g = Coords x y"
    | (3) g where "str_match pattern3 url = Some g" "from_match g = Coords x y"
    using r str_match_pattern4_None [of url]
    by (auto simp: extractCoordinates_def split: option.splits if_splits)
  then show "\<exists>p key a sep b q. url = p @ key @ a @ sep @ b @ q
         \<and> (key = ''@'' \<and> sep = '','' \<or> key = ''q='' \<and> sep = '','' \<or> key = ''!3d'' \<and> sep = ''!4d'')
         \<and> is_decimal a \<and> is_decimal b \<and> x = parseFloat a \<and> y = parseFloat b
         \<and> x \<noteq> NaN \<and> x \<noteq> Undefined \<and> y \<noteq> NaN \<and> y \<noteq> Undefined"
  proof cases
    case 1
    from from_pair [OF str_match_pair [OF 1(1) [unfolded p1]] 1(2)] show ?thesis by blast
  next
    case 2
    from from_pair [OF str_match_pair [OF 2(1) [unfolded p2]] 2(2)] show ?thesis by blast
  next
    case 3
    from from_pair [OF str_match_pair [OF 3(1) [unfolded p3]] 3(2)] show ?thesis by blast
  qed
next
  assume d: "is_decimal a' \<and> is_decimal b'"
  have "str_match (lit ''@'' (Seq (Group decimal) (lit '','' (Group decimal))))
          ([] @ ''@'' @ a' @ '','' @ b' @ []) = Some [a', b']"
    by (rule str_match_shape) (use d in \<open>simp_all add: no_digit_ahead_def\<close>)
  then show "extractCoordinates (''@'' @ a' @ '','' @ b') = Coords (parseFloat a') (parseFloat b')"
    by (simp add: extractCoordinates_def pattern1_def)
qed

lemma extract_out_of_range:
  "extractCoordinates ''https://maps.google.com/@91.0,200.0,15z'' = Coords (Number 91) (Number 200)"
  by (simp add: extractCoordinates_def eval_regex)

text \<open>A URL with latitude 91 and longitude 200.\<close>

theorem extracted_pair_from_literals_witness:
  "(\<exists>p key a sep b q. ''https://maps.google.com/@91.0,200.0,15z'' = p @ key @ a @ sep @ b @ q
       \<and> is_decimal a \<and> is_decimal b \<and> parseFloat a = Number 91 \<and> parseFloat b = Number 200)
   \<and> extractCoordinates ''@91.0,200.0'' = Coords (Number 91) (Number 200)"
proof -
  note t = extracted_pair_from_literals [of "''https://maps.google.com/@91.0,200.0,15z''"
      "Number 91" "Number 200" "''91.0''" "''200.0''"]
  from t extract_out_of_range
  have "\<exists>p key a sep b q. ''https://maps.google.com/@91.0,200.0,15z'' = p @ key @ a @ sep @ b @ q
       \<and> is_decimal a \<and> is_decimal b \<and> parseFloat a = Number 91 \<and> parseFloat b = Number 200"
    by metis
  moreover have "is_decimal ''91.0'' \<and> is_decimal ''200.0''"
    by (simp add: eval_regex)
  with t have "extractCoordinates (''@'' @ ''91.0'' @ '','' @ ''200.0'')
      = Coords (parseFloat ''91.0'') (parseFloat ''200.0'')"
    by blast
  then have "extractCoordinates ''@91.0,200.0'' = Coords (Number 91) (Number 200)"
    by (simp add: eval_regex)
  ultimately show ?thesis by blast
qed

text \<open>C7 as stated fails: latitude 91 and longitude 200 are returned as they stand.\<close>

theorem extracted_pair_out_of_range_counterexample:
  "\<not> in_range (extractCoordinates ''https://maps.google.com/@91.0,200.0,15z'')"
  by (simp add: extract_out_of_range in_range_def)

text \<open>
  C10. The branch of pattern 4 is never taken: for every URL the function returns what
  it returns without that branch, since a URL that pattern 4 matches is matched by
  pattern 1 as well (a match of pattern 4 ends in a match of pattern 1), and pattern 1
  is tried first.
\<close>

theorem pattern4_unreachable:
  "extractCoordinates url = extractCoordinates_without_pattern4 url
   \<and> (str_match pattern4 url \<noteq> None \<longrightarrow> str_match pattern1 url \<noteq> None)"
proof (cases "str_match pattern1 url")
  case None
  then have "str_match pattern4 url = None"
    by (rule str_match_pattern4_None)
  with None show ?thesis
    by (simp add: extractCoordinates_def extractCoordinates_without_pattern4_def split: option.splits)
next
  case (Some m)
  then show ?thesis
    by (simp add: extractCoordinates_def extractCoordinates_without_pattern4_def)
qed

text \<open>A URL that pattern 4 matches.\<close>

theorem pattern4_unreachable_witness:
  "str_match pattern4 ''https://www.google.com/maps/place/Home+Depot/@40.5,-75.25,17z''
     = Some [''40.5'', ''-75.25'']
   \<and> str_match pattern1 ''https://www.google.com/maps/place/Home+Depot/@40.5,-75.25,17z'' \<noteq> None
   \<and> extractCoordinates_without_pattern4 ''https://www.google.com/maps/place/Home+Depot/@40.5,-75.25,17z''
       = extractCoordinates ''https://www.google.com/maps/place/Home+Depot/@40.5,-75.25,17z''"
proof -
  have 4: "str_match pattern4 ''https://www.google.com/maps/place/Home+Depot/@40.5,-75.25,17z''
     = Some [''40.5'', ''-75.25'']"
    by (simp add: pattern4_def decimal_def)
  with pattern4_unreachable [of "''https://www.google.com/maps/place/Home+Depot/@40.5,-75.25,17z''"]
  show ?thesis by simp
qed

section \<open>The loop of \<^verbatim>\<open>checkProximity\<close>\<close>

lemma checkTask_cases:
  "checkTask e cl p st t =
     (if alerting e cl p t then
        st\<lparr>notifications := notifications st @ [\<lparr>notif_id = now e (clockReads st), notif_text = notifText t\<rparr>],
           clockReads := Suc (clockReads st),
           notifiedTasks := insert (task_id t) (notifiedTasks st),
           browserNotifications := (if notificationPermission st = Granted
                 then browserNotifications st @ [notifText t] else browserNotifications st)\<rparr>
      else if far e p t then st\<lparr>notifiedTasks := notifiedTasks st - {task_id t}\<rparr>
      else st)"
  by (simp add: checkTask_def alerting_def far_def Let_def)

lemma foldl_checkTask_texts:
  "map notif_text (notifications (foldl (checkTask e cl p) st ts)) =
     map notif_text (notifications st) @ map notifText (filter (alerting e cl p) ts)"
  by (induction ts arbitrary: st) (simp_all add: checkTask_cases)

lemma foldl_checkTask_clockReads:
  "clockReads (foldl (checkTask e cl p) st ts) = clockReads st + length (filter (alerting e cl p) ts)"
  by (induction ts arbitrary: st) (simp_all add: checkTask_cases)

lemma foldl_checkTask_ids:
  "map notif_id (notifications (foldl (checkTask e cl p) st ts)) =
     map notif_id (notifications st) @
       map (now e) [clockReads st ..< clockReads st + length (filter (alerting e cl p) ts)]"
proof (induction ts arbitrary: st)
  case Nil
  then show ?case by simp
next
  case (Cons t ts)
  show ?case
  proof (cases "alerting e cl p t")
    case True
    then show ?thesis
      unfolding foldl_Cons Cons.IH
      by (simp add: checkTask_cases upt_rec [of "clockReads st"] Suc_le_eq)
  next
    case False
    then show ?thesis
      unfolding foldl_Cons Cons.IH by (simp add: checkTask_cases)
  qed
qed

lemma foldl_checkTask_notifiedTasks:
  "notifiedTasks (foldl (checkTask e cl p) st ts) = track e cl p (notifiedTasks st) ts"
  by (induction ts arbitrary: st) (simp_all add: checkTask_cases)

lemma foldl_checkTask_tasks:
  "tasks (foldl (checkTask e cl p) st ts) = tasks st"
  by (induction ts arbitrary: st) (simp_all add: checkTask_cases)

lemma checkProximity_texts:
  "map notif_text (notifications (checkProximity e cl p st)) =
     map notif_text (notifications st) @ map notifText (filter (alerting e cl p) (cl_tasks cl))"
  by (simp add: checkProximity_def foldl_checkTask_texts)

lemma checkProximity_length:
  "length (notifications (checkProximity e cl p st)) =
     length (notifications st) + length (filter (alerting e cl p) (cl_tasks cl))"
proof -
  have "length (map notif_text (notifications (checkProximity e cl p st))) =
     length (map notif_text (notifications st) @ map notifText (filter (alerting e cl p) (cl_tasks cl)))"
    by (simp only: checkProximity_texts)
  then show ?thesis by simp
qed

lemma newAlerts_texts:
  "map notif_text (newAlerts st (checkProximity e cl p st)) =
     map notifText (filter (alerting e cl p) (cl_tasks cl))"
proof -
  have "map notif_text (newAlerts st (checkProximity e cl p st)) =
      drop (length (notifications st)) (map notif_text (notifications (checkProximity e cl p st)))"
    by (simp add: newAlerts_def drop_map)
  then show ?thesis by (simp add: checkProximity_texts)
qed

lemma newAlerts_onPosition_texts:
  "map notif_text (newAlerts st (onPosition e cl p st)) =
     map notifText (filter (alerting e cl p) (cl_tasks cl))"
  using newAlerts_texts [of "st\<lparr>userLocation := Some p\<rparr>" e cl p]
  by (simp add: onPosition_def newAlerts_def)

lemma newAlerts_onPosition_length:
  "length (newAlerts st (onPosition e cl p st)) = length (filter (alerting e cl p) (cl_tasks cl))"
  using arg_cong [OF newAlerts_onPosition_texts, of length st e cl p] by simp

lemma checkProximity_notifiedTasks:
  "notifiedTasks (checkProximity e cl p st) = track e cl p (notifiedTasks st) (cl_tasks cl)"
  by (simp add: checkProximity_def foldl_checkTask_notifiedTasks)

lemma checkProximity_tasks: "tasks (checkProximity e cl p st) = tasks st"
  by (simp add: checkProximity_def foldl_checkTask_tasks)

lemma track_subset: "track e cl p S ts \<subseteq> S \<union> task_id ` set ts"
  by (induction ts arbitrary: S) (auto split: if_splits)

lemma checkProximity_adds_evaluated:
  "notifiedTasks (checkProximity e cl p st) \<subseteq> notifiedTasks st \<union> task_id ` set (cl_tasks cl)"
  by (simp add: checkProximity_notifiedTasks track_subset)

lemma alerting_now [simp]: "alerting (e\<lparr>now := c\<rparr>) = alerting e"
  by (intro ext) (simp add: alerting_def)

lemma far_now [simp]: "far (e\<lparr>now := c\<rparr>) = far e"
  by (intro ext) (simp add: far_def)

lemma foldl_checkTask_rest:
  "(foldl (checkTask (e\<lparr>now := c\<rparr>) cl p) (st\<lparr>notifications := ns\<rparr>) ts)\<lparr>notifications := []\<rparr> =
   (foldl (checkTask (e\<lparr>now := c'\<rparr>) cl p) (st\<lparr>notifications := ns'\<rparr>) ts)\<lparr>notifications := []\<rparr>"
proof (induction ts arbitrary: st ns ns')
  case Nil
  then show ?case by simp
next
  case (Cons t ts)
  have a: "checkTask (e\<lparr>now := c\<rparr>) cl p (st\<lparr>notifications := ns\<rparr>) t =
      (checkTask (e\<lparr>now := c\<rparr>) cl p st t)\<lparr>notifications :=
         notifications (checkTask (e\<lparr>now := c\<rparr>) cl p (st\<lparr>notifications := ns\<rparr>) t)\<rparr>" for c ns
    by (simp add: checkTask_cases)
  show ?case
    unfolding foldl_Cons
    apply (subst a [of c ns])
    apply (subst a [of c' ns'])
    apply (subst Cons.IH [of _ _ "notifications (checkTask (e\<lparr>now := c'\<rparr>) cl p (st\<lparr>notifications := ns'\<rparr>) t)"])
    apply (simp add: checkTask_cases)
    done
qed

lemma near_not_far: "js_le d proximityThreshold \<Longrightarrow> \<not> js_gt d (proximityThreshold * 2)"
  by (cases d) (simp_all add: proximityThreshold_def)

lemma alerting_not_far: "alerting e cl p t \<Longrightarrow> \<not> far e p t"
  by (simp add: alerting_def far_def near_not_far)

lemma track_untouched:
  "i \<notin> task_id ` set ts \<Longrightarrow> (i \<in> track e cl p S ts \<longleftrightarrow> i \<in> S)"
  by (induction ts arbitrary: S) auto

lemma track_near:
  assumes "distinct (map task_id ts)" and "t \<in> set ts"
    and "js_le (distance_to e t p) proximityThreshold"
    and "task_id t \<in> cl_notifiedTasks cl \<longrightarrow> task_id t \<in> S"
  shows "task_id t \<in> track e cl p S ts"
  using assms
proof (induction ts arbitrary: S)
  case Nil
  then show ?case by simp
next
  case (Cons u us)
  let ?S = "if alerting e cl p u then insert (task_id u) S
            else if far e p u then S - {task_id u} else S"
  show ?case
  proof (cases "u = t")
    case True
    have "\<not> far e p t"
      using Cons.prems(3) by (simp add: far_def distance_to_def near_not_far)
    then have "task_id t \<in> ?S"
      using True Cons.prems(3,4) by (auto simp: alerting_def distance_to_def)
    moreover have "task_id t \<notin> task_id ` set us"
      using True Cons.prems(1) by auto
    ultimately show ?thesis by (simp add: track_untouched)
  next
    case False
    with Cons.prems have t: "t \<in> set us" and ne: "task_id u \<noteq> task_id t" by auto
    have "task_id t \<in> cl_notifiedTasks cl \<longrightarrow> task_id t \<in> ?S"
      using Cons.prems(4) ne by auto
    with Cons.IH [of ?S] Cons.prems(1,3) t show ?thesis by simp
  qed
qed

lemma track_far:
  assumes "distinct (map task_id ts)" and "t \<in> set ts" and "far e p t"
  shows "task_id t \<notin> track e cl p S ts"
  using assms
proof (induction ts arbitrary: S)
  case Nil
  then show ?case by simp
next
  case (Cons u us)
  let ?S = "if alerting e cl p u then insert (task_id u) S
            else if far e p u then S - {task_id u} else S"
  show ?case
  proof (cases "u = t")
    case True
    have "\<not> alerting e cl p t" using Cons.prems(3) alerting_not_far by blast
    then have "task_id t \<notin> ?S" using True Cons.prems(3) by simp
    moreover have "task_id t \<notin> task_id ` set us"
      using True Cons.prems(1) by auto
    ultimately show ?thesis by (simp add: track_untouched)
  next
    case False
    with Cons.prems have "t \<in> set us" by auto
    with Cons.IH [of ?S] Cons.prems(1,3) show ?thesis by simp
  qed
qed

lemma track_settled:
  assumes "\<forall>t \<in> set ts. \<not> alerting e cl p t \<and> (far e p t \<longrightarrow> task_id t \<notin> S)"
  shows "track e cl p S ts = S"
  using assms by (induction ts) auto

lemma onPosition_notifiedTasks:
  "notifiedTasks (onPosition e cl p st) = track e cl p (notifiedTasks st) (cl_tasks cl)"
  by (simp add: onPosition_def checkProximity_notifiedTasks)

lemma onPosition_tasks: "tasks (onPosition e cl p st) = tasks st"
  by (simp add: onPosition_def checkProximity_tasks)

section \<open>The concrete run\<close>

lemma extract_drill: "extractCoordinates ''https://maps.google.com/@40.0000,-75.0000,15z'' = Coords (Number 40) (Number (-75))"
  by (simp add: extractCoordinates_def pattern1_def decimal_def parse_unsigned_def digit_value_def
      to_double_def exponent_def round_half_even_def)

lemma run_prepare: "run_events standin prepare = (tracked, Some \<lparr>cl_tasks = [drill], cl_notifiedTasks = {}\<rparr>)"
  by (simp add: run_events_def prepare_def addTask_def extract_drill initial_def toggleTracking_def
      subscribe_def tracked_def drill_def standin_def Let_def)

lemma standin_dist: "calculateDistance standin (lat (at_metres d)) (lng (at_metres d)) (task_lat drill) (task_lng drill) = Number \<bar>d\<bar>"
  by (simp add: standin_def at_metres_def drill_def abs_mult)

lemma now_standin: "now standin k = 1700000000000 + int k"
  by (simp add: standin_def)

lemma tracked_alert:
  "newAlerts tracked (checkProximity standin \<lparr>cl_tasks = [drill], cl_notifiedTasks = {}\<rparr> (at_metres 56) tracked)
    = [\<lparr>notif_id = 1700000000001, notif_text = notifText drill\<rparr>]"
  by (simp add: checkProximity_def checkTask_cases alerting_def standin_dist proximityThreshold_def
      newAlerts_def tracked_def initial_def now_standin)

section \<open>Adding a task\<close>

text \<open>With an empty field, or with a URL from which nothing is extracted, \<^verbatim>\<open>addTask\<close>
  shows a message and changes nothing else.\<close>

lemma addTask_missing_field:
  "taskName st = [] \<or> locationName st = [] \<or> googleMapsUrl st = [] \<Longrightarrow>
     addTask e st = st\<lparr>alerts := alerts st @ [''Please fill in all fields'']\<rparr>"
  by (simp add: addTask_def)

lemma addTask_unparseable:
  "extractCoordinates (googleMapsUrl st) = Null \<Longrightarrow> tasks (addTask e st) = tasks st"
  by (simp add: addTask_def Let_def)

lemma addTask_short_url:
  assumes "taskName st \<noteq> []" and "locationName st \<noteq> []" and "googleMapsUrl st \<noteq> []"
    and "extractCoordinates (googleMapsUrl st) = SHORT_URL"
  shows "tasks (addTask e st) = tasks st @
     [\<lparr>task_id = now e (clockReads st), name = taskName st, location = locationName st,
       task_lat = Undefined, task_lng = Undefined, mapsUrl = googleMapsUrl st\<rparr>]"
  using assms by (simp add: addTask_def Let_def)

lemma extract_short_link:
  "extractCoordinates ''https://maps.app.goo.gl/AbCdEf123'' = SHORT_URL"
  by (simp add: extractCoordinates_def pattern1_def pattern2_def pattern3_def pattern4_def)

text \<open>
  C1. The claim: when a required field is missing, or \<^verbatim>\<open>extractCoordinates\<close> returns
  the short-link marker or nothing, no task is created. The code does not do this for
  a short link: \<^verbatim>\<open>'SHORT_URL'\<close> is a non-empty string, so the test \<^verbatim>\<open>!coords\<close> of line
  139 lets it through, and a task is appended whose coordinates are \<^verbatim>\<open>undefined\<close>.
  Here the form holds a task name, a location name and a short link.
\<close>

theorem addTask_short_link_creates_task:
  "extractCoordinates (googleMapsUrl short_link_form) = SHORT_URL
   \<and> tasks short_link_form = []
   \<and> tasks (addTask e short_link_form) =
       [\<lparr>task_id = now e 0, name = ''Buy drill'', location = ''Home Depot'',
         task_lat = Undefined, task_lng = Undefined,
         mapsUrl = ''https://maps.app.goo.gl/AbCdEf123''\<rparr>]"
proof -
  have url: "googleMapsUrl short_link_form = ''https://maps.app.goo.gl/AbCdEf123''"
    by (simp add: short_link_form_def)
  have "tasks (addTask e short_link_form) = tasks short_link_form @
     [\<lparr>task_id = now e (clockReads short_link_form), name = taskName short_link_form,
       location = locationName short_link_form, task_lat = Undefined, task_lng = Undefined,
       mapsUrl = googleMapsUrl short_link_form\<rparr>]"
    by (rule addTask_short_url) (simp_all add: url extract_short_link, simp_all add: short_link_form_def)
  then show ?thesis
    by (simp add: url extract_short_link) (simp add: short_link_form_def initial_def)
qed

section \<open>Successive location updates\<close>

text \<open>
  C2. The claim: on the path 2000 m, 1000 m, 1500 m, 3500 m, 1000 m from a single task
  that is not yet notified, exactly two alerts are sent, on the two steps at 1000 m.
  The component sends three. All five updates go to the callback that was registered
  when tracking started, and the \<^verbatim>\<open>notifiedTasks\<close> that this callback tests (line 108)
  is the set of that render, which does not contain the task. So the step at 1500 m
  alerts again.
\<close>

theorem hysteresis_path_three_alerts:
  assumes "tasks st = [t]" and "tracking st" and "task_id t \<notin> notifiedTasks st"
    and "distance_to e t p1 = Number 2000" and "distance_to e t p2 = Number 1000"
    and "distance_to e t p3 = Number 1500" and "distance_to e t p4 = Number 3500"
    and "distance_to e t p5 = Number 1000"
  shows "alert_counts e (st, subscribe st) (map PositionUpdate [p1, p2, p3, p4, p5]) = [0, 1, 1, 0, 1]"
  using assms
  by (simp add: subscribe_def onPosition_def checkProximity_def checkTask_def distance_to_def
      proximityThreshold_def newAlerts_def Let_def)

text \<open>The same path in the concrete run.\<close>

theorem hysteresis_path_three_alerts_witness:
  "alert_counts standin (run_events standin prepare)
     (map PositionUpdate [at_metres 2000, at_metres 1000, at_metres 1500, at_metres 3500, at_metres 1000])
   = [0, 1, 1, 0, 1]"
proof -
  have sub: "subscribe tracked = Some \<lparr>cl_tasks = [drill], cl_notifiedTasks = {}\<rparr>"
    by (simp add: subscribe_def tracked_def initial_def)
  have "alert_counts standin (tracked, subscribe tracked)
     (map PositionUpdate [at_metres 2000, at_metres 1000, at_metres 1500, at_metres 3500, at_metres 1000])
   = [0, 1, 1, 0, 1]"
    by (rule hysteresis_path_three_alerts [where t = drill])
       (simp_all add: tracked_def initial_def distance_to_def standin_dist)
  then show ?thesis by (simp only: run_prepare sub)
qed

text \<open>Had each update been handled by the closure of the current state, the path
  would give the two alerts of the claim.\<close>

lemma hysteresis_path_current_state:
  assumes "tasks st = [t]" and "task_id t \<notin> notifiedTasks st"
    and "distance_to e t p1 = Number 2000" and "distance_to e t p2 = Number 1000"
    and "distance_to e t p3 = Number 1500" and "distance_to e t p4 = Number 3500"
    and "distance_to e t p5 = Number 1000"
  shows "alert_counts_current e st [p1, p2, p3, p4, p5] = [0, 1, 0, 0, 1]"
  using assms
  by (simp add: current_def onPosition_def checkProximity_def checkTask_def distance_to_def
      proximityThreshold_def newAlerts_def Let_def)

text \<open>
  C3. The claim: the same location update applied a second time sends no new alert.
  In the component the second update goes to the same callback as the first, with the
  same \<^verbatim>\<open>notifiedTasks\<close> of the render that registered it; every task that alerted on
  the first update alerts on the second.
\<close>

theorem repeated_update_alerts_again:
  assumes "t \<in> set (cl_tasks cl)"
    and "js_le (distance_to e t p) proximityThreshold"
    and "task_id t \<notin> cl_notifiedTasks cl"
  shows "\<exists>k > 0. alert_counts e (st, Some cl) [PositionUpdate p, PositionUpdate p] = [k, k]"
proof -
  let ?k = "length (filter (alerting e cl p) (cl_tasks cl))"
  have "alerting e cl p t"
    using assms by (simp add: alerting_def distance_to_def)
  with assms(1) have "filter (alerting e cl p) (cl_tasks cl) \<noteq> []"
    by (auto simp: filter_empty_conv)
  then have "?k > 0" by simp
  moreover have "alert_counts e (st, Some cl) [PositionUpdate p, PositionUpdate p] = [?k, ?k]"
    by (simp add: newAlerts_onPosition_length)
  ultimately show ?thesis by blast
qed

text \<open>In the concrete run, 56 metres from the task.\<close>

theorem repeated_update_alerts_again_witness:
  "alert_counts standin (run_events standin prepare)
     [PositionUpdate (at_metres 56), PositionUpdate (at_metres 56)] = [1, 1]"
proof -
  obtain k where "alert_counts standin (tracked, Some \<lparr>cl_tasks = [drill], cl_notifiedTasks = {}\<rparr>)
       [PositionUpdate (at_metres 56), PositionUpdate (at_metres 56)] = [k, k]"
    using repeated_update_alerts_again [of drill "\<lparr>cl_tasks = [drill], cl_notifiedTasks = {}\<rparr>"
        standin "at_metres 56" tracked]
    by (auto simp: distance_to_def standin_dist proximityThreshold_def)
  moreover have "length (alert_counts standin (tracked, Some \<lparr>cl_tasks = [drill], cl_notifiedTasks = {}\<rparr>)
       [PositionUpdate (at_metres 56), PositionUpdate (at_metres 56)]) = 2" by simp
  moreover have "hd (alert_counts standin (tracked, Some \<lparr>cl_tasks = [drill], cl_notifiedTasks = {}\<rparr>)
       [PositionUpdate (at_metres 56), PositionUpdate (at_metres 56)]) = 1" 
    by (simp add: newAlerts_onPosition_length alerting_def standin_dist proximityThreshold_def)
  ultimately show ?thesis by (simp add: run_prepare)
qed

text \<open>Had the second update been handled by the closure of the state it finds, it
  would send no alert and leave the notified set as it is, for tasks with distinct
  identifiers.\<close>

lemma current_state_idempotent:
  assumes "distinct (map task_id (tasks st))"
  shows "newAlerts (onPosition e (current st) p st)
           (onPosition e (current (onPosition e (current st) p st)) p (onPosition e (current st) p st)) = []
       \<and> notifiedTasks (onPosition e (current (onPosition e (current st) p st)) p (onPosition e (current st) p st))
           = notifiedTasks (onPosition e (current st) p st)"
proof -
  let ?s1 = "onPosition e (current st) p st"
  let ?S1 = "notifiedTasks ?s1"
  have S1: "?S1 = track e (current st) p (notifiedTasks st) (tasks st)"
    by (simp add: onPosition_notifiedTasks current_def)
  have ts: "tasks ?s1 = tasks st" by (rule onPosition_tasks)
  have cl1: "current ?s1 = \<lparr>cl_tasks = tasks st, cl_notifiedTasks = ?S1\<rparr>"
    by (simp add: current_def onPosition_tasks)
  have settled: "\<forall>t \<in> set (tasks st). \<not> alerting e (current ?s1) p t \<and> (far e p t \<longrightarrow> task_id t \<notin> ?S1)"
  proof
    fix t assume t: "t \<in> set (tasks st)"
    have "\<not> alerting e (current ?s1) p t"
    proof
      assume a: "alerting e (current ?s1) p t"
      then have near: "js_le (distance_to e t p) proximityThreshold" and out: "task_id t \<notin> ?S1"
        by (simp_all add: alerting_def distance_to_def cl1)
      have "task_id t \<in> track e (current st) p (notifiedTasks st) (tasks st)"
        using assms t near by (rule track_near) (simp add: current_def)
      with out S1 show False by simp
    qed
    moreover have "far e p t \<longrightarrow> task_id t \<notin> ?S1"
      unfolding S1 using track_far [OF assms t] by blast
    ultimately show "\<not> alerting e (current ?s1) p t \<and> (far e p t \<longrightarrow> task_id t \<notin> ?S1)" by blast
  qed
  then have none: "filter (alerting e (current ?s1) p) (cl_tasks (current ?s1)) = []"
    by (simp add: cl1 filter_empty_conv)
  have "length (newAlerts ?s1 (onPosition e (current ?s1) p ?s1)) = 0"
    by (simp only: newAlerts_onPosition_length none list.size)
  moreover have "notifiedTasks (onPosition e (current ?s1) p ?s1) = ?S1"
    unfolding onPosition_notifiedTasks [of e "current ?s1"]
    using track_settled [OF settled] by (simp add: cl1)
  ultimately show ?thesis by simp
qed

section \<open>What an evaluation produces\<close>

lemma track_env:
  "calculateDistance e = calculateDistance e' \<Longrightarrow> track e cl p S ts = track e' cl p S ts"
  by (induction ts arbitrary: S) (simp_all add: alerting_def far_def)

lemma alerting_env:
  "calculateDistance e = calculateDistance e' \<Longrightarrow> alerting e cl p = alerting e' cl p"
  by (intro ext) (simp add: alerting_def)

lemma newAlerts_ids:
  "map notif_id (newAlerts st (checkProximity e cl p st)) =
     map (now e) [clockReads st ..< clockReads st + length (newAlerts st (checkProximity e cl p st))]"
proof -
  have len: "length (newAlerts st (checkProximity e cl p st)) =
      length (filter (alerting e cl p) (cl_tasks cl))"
    using arg_cong [OF newAlerts_texts, of length st e cl p] by simp
  have "map notif_id (newAlerts st (checkProximity e cl p st)) =
      drop (length (notifications st)) (map notif_id (notifications (checkProximity e cl p st)))"
    by (simp add: newAlerts_def drop_map)
  also have "\<dots> = map (now e) [clockReads st ..< clockReads st + length (filter (alerting e cl p) (cl_tasks cl))]"
    by (simp add: checkProximity_def foldl_checkTask_ids)
  finally show ?thesis by (simp only: len)
qed

text \<open>The callback registered in a state has the closure of that state.\<close>

lemma subscribe_current: "tracking st \<Longrightarrow> subscribe st = Some (current st)"
  by (simp add: subscribe_def current_def)

text \<open>With the same closure and the same state, the clock decides the alert identifiers
  and nothing else.\<close>

lemma clock_decides_identifiers_only:
  "(checkProximity (e\<lparr>now := c\<rparr>) cl p st)\<lparr>notifications := []\<rparr> =
     (checkProximity (e\<lparr>now := c'\<rparr>) cl p st)\<lparr>notifications := []\<rparr>"
  using foldl_checkTask_rest [where e = e and c = c and c' = c' and cl = cl and p = p and st = st
      and ns = "notifications st" and ns' = "notifications st" and ts = "cl_tasks cl"]
  by (simp add: checkProximity_def)

lemma standin_dist_nails:
  "calculateDistance standin (lat (at_metres d)) (lng (at_metres d)) (task_lat nails) (task_lng nails) = Number \<bar>d\<bar>"
  by (simp add: standin_def at_metres_def nails_def abs_mult)

lemma standin_dist_paint:
  "calculateDistance standin (lat (at_metres d)) (lng (at_metres d)) (task_lat paint) (task_lng paint) = Number \<bar>d\<bar>"
  by (simp add: standin_def at_metres_def paint_def abs_mult)

lemma three_texts:
  "map notif_text (newAlerts three (checkProximity standin (current three) (at_metres 56) three))
     = [notifText drill, notifText paint]"
  by (simp add: newAlerts_texts current_def three_def alerting_def standin_dist standin_dist_nails
      standin_dist_paint proximityThreshold_def)
     (simp add: drill_def nails_def paint_def)

lemma three_notified:
  "notifiedTasks (checkProximity standin (current three) (at_metres 56) three)
     = {1700000000000, 1700000000007, 1700000000009}"
  by (simp add: checkProximity_notifiedTasks current_def three_def alerting_def far_def standin_dist
      standin_dist_nails standin_dist_paint proximityThreshold_def)
     (auto simp: drill_def nails_def paint_def)

text \<open>
  C4, as amended. Take two evaluations, each made by the callback of the render of its
  own state (so that the set tested is the prior notified set). If the location, the
  task list and the prior notified set are the same, then the texts of the alerts, in
  their order, and the new notified set are the same, whatever else differs in the
  two states and whatever the clocks show. The identifiers of the alerts are the
  successive values of \<^verbatim>\<open>Date.now()\<close>.
\<close>

theorem alerts_determined_up_to_clock:
  assumes "tasks st = tasks st'" and "notifiedTasks st = notifiedTasks st'"
    and "calculateDistance e = calculateDistance e'"
  shows "map notif_text (newAlerts st (checkProximity e (current st) p st)) =
           map notif_text (newAlerts st' (checkProximity e' (current st') p st'))
       \<and> notifiedTasks (checkProximity e (current st) p st) =
           notifiedTasks (checkProximity e' (current st') p st')
       \<and> map notif_id (newAlerts st (checkProximity e (current st) p st)) =
           map (now e) [clockReads st ..<
             clockReads st + length (newAlerts st (checkProximity e (current st) p st))]"
proof -
  have cl: "current st = current st'"
    using assms(1,2) by (simp add: current_def)
  have 1: "map notif_text (newAlerts st (checkProximity e (current st) p st)) =
           map notif_text (newAlerts st' (checkProximity e' (current st') p st'))"
    by (simp only: newAlerts_texts cl alerting_env [OF assms(3)])
  have 2: "notifiedTasks (checkProximity e (current st) p st) =
           notifiedTasks (checkProximity e' (current st') p st')"
    by (simp only: checkProximity_notifiedTasks cl assms(2) track_env [OF assms(3)])
  from 1 2 newAlerts_ids [of st e "current st" p] show ?thesis by blast
qed

text \<open>Two states of the concrete run with the same tasks and notified set, and two
  clocks.\<close>

theorem alerts_determined_up_to_clock_witness:
  "map notif_text (newAlerts resumed (checkProximity (standin\<lparr>now := (\<lambda>k. 1700000360000 + int k)\<rparr>)
       (current resumed) (at_metres 56) resumed))
     = [notifText drill, notifText paint]
   \<and> notifiedTasks (checkProximity (standin\<lparr>now := (\<lambda>k. 1700000360000 + int k)\<rparr>)
       (current resumed) (at_metres 56) resumed)
     = {1700000000000, 1700000000007, 1700000000009}
   \<and> map notif_id (newAlerts three (checkProximity standin (current three) (at_metres 56) three))
     = [1700000000001, 1700000000002]"
proof -
  have l: "length (newAlerts three (checkProximity standin (current three) (at_metres 56) three)) = 2"
    using arg_cong [OF three_texts, of length] by simp
  have r: "[clockReads three ..< clockReads three + 2] = [1, 2]"
    by (simp add: three_def tracked_def upt_rec)
  from alerts_determined_up_to_clock [of three resumed standin
      "standin\<lparr>now := (\<lambda>k. 1700000360000 + int k)\<rparr>" "at_metres 56"]
  show ?thesis
    unfolding l r by (simp add: resumed_def three_texts three_notified now_standin)
qed

text \<open>C4 as stated fails: the same evaluation six minutes later gives other alert
  records.\<close>

theorem alert_identifiers_follow_clock_counterexample:
  "newAlerts tracked (checkProximity standin \<lparr>cl_tasks = [drill], cl_notifiedTasks = {}\<rparr> (at_metres 56) tracked)
   \<noteq> newAlerts tracked (checkProximity (standin\<lparr>now := (\<lambda>k. 1700000360000 + int k)\<rparr>)
        \<lparr>cl_tasks = [drill], cl_notifiedTasks = {}\<rparr> (at_metres 56) tracked)"
  by (simp add: checkProximity_def checkTask_cases alerting_def standin_dist proximityThreshold_def
      newAlerts_def tracked_def initial_def now_standin)

text \<open>
  C8, as amended. The texts of the alerts that an evaluation sends are, one for one and
  in the order of the task list, the texts made from the tasks that are within the
  threshold and not in the notified set that the callback tests: the bytes of the
  pushpin U+1F4CD, then \<^verbatim>\<open> Nearby reminder: \<close> with a leading space, the name of that
  task, \<^verbatim>\<open> at \<close> and its location label.
\<close>

theorem alert_text_template:
  "map notif_text (newAlerts st (checkProximity e cl p st)) =
     map (\<lambda>t. [CHR 0xF0, CHR 0x9F, CHR 0x93, CHR 0x8D] @ '' Nearby reminder: '' @ name t
                 @ '' at '' @ location t)
       (filter (\<lambda>t. js_le (distance_to e t p) proximityThreshold \<and> task_id t \<notin> cl_notifiedTasks cl)
          (cl_tasks cl))"
proof -
  have 1: "alerting e cl p =
      (\<lambda>t. js_le (distance_to e t p) proximityThreshold \<and> task_id t \<notin> cl_notifiedTasks cl)"
    by (intro ext) (simp add: alerting_def distance_to_def)
  have 2: "notifText = (\<lambda>t. [CHR 0xF0, CHR 0x9F, CHR 0x93, CHR 0x8D] @ '' Nearby reminder: '' @ name t
                 @ '' at '' @ location t)"
    by (intro ext) (simp add: notifText_def)
  show ?thesis
    unfolding newAlerts_texts by (simp only: 1 2)
qed

text \<open>Three tasks within the threshold, the second of them notified before: the first
  and the third alert, each with its own name and label.\<close>

theorem alert_text_template_witness:
  "map notif_text (newAlerts three (checkProximity standin
      \<lparr>cl_tasks = [drill, nails, paint], cl_notifiedTasks = {1700000000007}\<rparr> (at_metres 56) three))
   = [[CHR 0xF0, CHR 0x9F, CHR 0x93, CHR 0x8D] @ '' Nearby reminder: Buy drill at Home Depot'',
      [CHR 0xF0, CHR 0x9F, CHR 0x93, CHR 0x8D] @ '' Nearby reminder: Buy paint at Paint Shop'']"
  unfolding alert_text_template [of three standin
      "\<lparr>cl_tasks = [drill, nails, paint], cl_notifiedTasks = {1700000000007}\<rparr>" "at_metres 56"]
  by (simp add: distance_to_def standin_dist standin_dist_nails standin_dist_paint proximityThreshold_def)
     (simp add: drill_def nails_def paint_def)

text \<open>C8 as stated fails: the text does not begin with \<^verbatim>\<open>Nearby reminder\<close>.\<close>

theorem alert_text_template_counterexample:
  "map notif_text (newAlerts tracked (checkProximity standin \<lparr>cl_tasks = [drill], cl_notifiedTasks = {}\<rparr> (at_metres 56) tracked))
   \<noteq> [''Nearby reminder: '' @ name drill @ '' at '' @ location drill]"
  by (simp add: tracked_alert notifText_def)

section \<open>The invariant of the notified set\<close>

lemma addTask_notifiedTasks: "notifiedTasks (addTask e st) = notifiedTasks st"
  by (simp add: addTask_def Let_def)

lemma addTask_tasks_grow: "set (tasks st) \<subseteq> set (tasks (addTask e st))"
  by (auto simp: addTask_def Let_def)

lemma step_invariant:
  assumes "invariant (fst c)" and "watching c"
  shows "invariant (fst (step e c ev)) \<and> watching (step e c ev)"
proof (cases c)
  case (Pair st w)
  show ?thesis
  proof (cases ev)
    case (PositionUpdate p)
    show ?thesis
    proof (cases w)
      case None
      with assms Pair PositionUpdate show ?thesis by simp
    next
      case (Some cl)
      have "notifiedTasks (onPosition e cl p st) \<subseteq> notifiedTasks st \<union> task_id ` set (cl_tasks cl)"
        using checkProximity_adds_evaluated [of e cl p "st\<lparr>userLocation := Some p\<rparr>"]
        by (simp add: onPosition_def)
      moreover have "tasks (onPosition e cl p st) = tasks st"
        by (simp add: onPosition_def checkProximity_tasks)
      ultimately show ?thesis
        using assms Pair PositionUpdate Some by (auto simp: invariant_def watching_def)
    qed
  next
    case PositionError
    with assms Pair show ?thesis
      by (auto simp: invariant_def watching_def onPositionError_def split: option.splits)
  next
    case (TypeTaskName s)
    with assms Pair show ?thesis by (auto simp: invariant_def watching_def split: option.splits)
  next
    case (TypeLocationName s)
    with assms Pair show ?thesis by (auto simp: invariant_def watching_def split: option.splits)
  next
    case (TypeGoogleMapsUrl s)
    with assms Pair show ?thesis by (auto simp: invariant_def watching_def split: option.splits)
  next
    case ClickAddTask
    have "invariant (addTask e st)"
      using assms(1) Pair addTask_tasks_grow [of st e]
      by (auto simp: invariant_def addTask_notifiedTasks)
    with assms Pair ClickAddTask show ?thesis
      by (auto simp: watching_def subscribe_def Let_def split: option.splits)
  next
    case (ClickDeleteTask i)
    with assms Pair show ?thesis
      by (auto simp: invariant_def watching_def subscribe_def deleteTask_def Let_def)
  next
    case (ClickToggleTracking a)
    with assms Pair show ?thesis
      by (auto simp: invariant_def watching_def subscribe_def toggleTracking_def Let_def)
  next
    case (ClickDismiss i)
    with assms Pair show ?thesis
      by (auto simp: invariant_def watching_def dismissNotification_def split: option.splits)
  qed
qed

lemma run_events_invariant:
  "invariant (fst (run_events e evs)) \<and> watching (run_events e evs)"
proof (induction evs rule: rev_induct)
  case Nil
  show ?case by (simp add: run_events_def invariant_def watching_def initial_def)
next
  case (snoc ev evs)
  then show ?case
    using step_invariant [of "run_events e evs" e ev] by (simp add: run_events_def)
qed

text \<open>
  C9. Removing a task deletes it from the list and its identifier from the notified
  set, whether or not it was there; an evaluation adds only identifiers of the tasks it
  evaluates; every event keeps the invariant (together with \<open>watching\<close>), and so it
  holds after every run of the component.
\<close>

theorem notification_state_references_tasks:
  "tasks (deleteTask i st) = filter (\<lambda>t. task_id t \<noteq> i) (tasks st)
   \<and> notifiedTasks (deleteTask i st) = notifiedTasks st - {i}
   \<and> notifiedTasks (checkProximity e cl p st) \<subseteq> notifiedTasks st \<union> task_id ` set (cl_tasks cl)
   \<and> (invariant (fst c) \<and> watching c \<longrightarrow> invariant (fst (step e c ev)) \<and> watching (step e c ev))
   \<and> invariant (fst (run_events e evs))"
  using step_invariant [of c e ev] run_events_invariant [of e evs]
  by (simp add: deleteTask_def checkProximity_adds_evaluated)

theorem notification_state_references_tasks_witness:
  "invariant (fst (run_events standin (prepare @ [PositionUpdate (at_metres 56)])))
   \<and> watching (run_events standin (prepare @ [PositionUpdate (at_metres 56)]))
   \<and> notifiedTasks (fst (run_events standin (prepare @ [PositionUpdate (at_metres 56)]))) = {1700000000000}
   \<and> invariant (fst (step standin (run_events standin (prepare @ [PositionUpdate (at_metres 56)]))
        (ClickDeleteTask 1700000000000)))
   \<and> notifiedTasks (fst (step standin (run_events standin (prepare @ [PositionUpdate (at_metres 56)]))
        (ClickDeleteTask 1700000000000))) = {}"
proof -
  let ?c = "run_events standin (prepare @ [PositionUpdate (at_metres 56)])"
  have c: "?c = step standin (run_events standin prepare) (PositionUpdate (at_metres 56))"
    by (simp add: run_events_def)
  have n: "notifiedTasks (fst ?c) = {1700000000000}"
    unfolding c run_prepare
    by (simp add: onPosition_def checkProximity_notifiedTasks alerting_def standin_dist
        proximityThreshold_def tracked_def initial_def)
       (simp add: drill_def)
  have t: "tasks (fst ?c) = [drill]"
    unfolding c run_prepare
    by (simp add: onPosition_def checkProximity_tasks tracked_def)
  have w: "watching ?c"
    unfolding c run_prepare by (simp add: watching_def onPosition_def checkProximity_tasks tracked_def)
  have i: "invariant (fst ?c)"
    by (simp add: invariant_def n t drill_def)
  have "invariant (fst (step standin ?c (ClickDeleteTask 1700000000000)))"
    using notification_state_references_tasks
        [where c = ?c and e = standin and ev = "ClickDeleteTask 1700000000000"] i w
    by blast
  moreover have "notifiedTasks (fst (step standin ?c (ClickDeleteTask 1700000000000))) = {}"
    by (cases ?c) (use n in \<open>simp add: deleteTask_def Let_def\<close>)
  ultimately show ?thesis using i w n by blast
qed

end
